(* ===== verification/Uds_Prelude.thy ===== *)
theory Uds_Prelude
  imports Main "HOL-Library.Word"
begin

text \<open>
  Prelude: the integer types of the C code, the big-endian byte arithmetic the services use to
  read identifiers, addresses and sizes from a request, C arrays as byte lists with a checked
  block write, and the collections of rewrite rules shared by the component theories.
\<close>

unbundle bit_operations_syntax

named_theorems frame_simps \<open>what an input/output primitive leaves unchanged\<close>
named_theorems served_intros \<open>how an operation composed of input/output primitives answers a request\<close>

section \<open>Integer types\<close>

type_synonym u8 = "8 word"
type_synonym u16 = "16 word"
type_synonym u32 = "32 word"

section \<open>Big-endian byte arithmetic\<close>

text \<open>\<open>((uint16_t)hi << 8) | lo\<close>, the way every service reads a 16-bit identifier.\<close>

definition be16 :: "u8 \<Rightarrow> u8 \<Rightarrow> u16" where
  "be16 hi lo = (push_bit 8 (ucast hi)) OR ucast lo"

text \<open>\<open>((uint32_t)a << 16) | ((uint32_t)b << 8) | c\<close>, the way a DTC is read.\<close>

definition be24 :: "u8 \<Rightarrow> u8 \<Rightarrow> u8 \<Rightarrow> u32" where
  "be24 a b c = push_bit 16 (ucast a) OR push_bit 8 (ucast b) OR ucast c"

text \<open>\<open>(acc << 8) | b\<close>, one step of the address and size loops of a download request.\<close>

definition be_step :: "u32 \<Rightarrow> u8 \<Rightarrow> u32" where
  "be_step acc b = (push_bit 8 acc) OR ucast b"

fun be_val :: "u8 list \<Rightarrow> nat" where
  "be_val [] = 0"
| "be_val (b # bs) = unat b * 256 ^ length bs + be_val bs"

lemma unat_u8_less [simp]: "unat (b :: u8) < 256"
  using unsigned_less [of b] by simp

lemma unat_u32_less [simp]: "unat (x :: u32) < 4294967296"
  using unsigned_less [of x] by simp

lemma unat_ucast_u8 [simp]:
  "unat (ucast (b :: u8) :: u16) = unat b" "unat (ucast (b :: u8) :: u32) = unat b"
  by (simp_all add: unsigned_ucast_eq take_bit_nat_eq_self_iff less_trans [OF unat_u8_less])

lemma or_low_byte:
  fixes x :: "'a::len word" and b :: u8
  shows "push_bit 8 x OR ucast b = push_bit 8 x + ucast b"
proof -
  have "push_bit 8 x AND ucast b = 0"
    by (rule bit_eqI) (auto simp: bit_simps dest: bit_imp_le_length)
  then show ?thesis by (simp add: disjunctive_add_eq_or)
qed

lemma unat_push_8: "unat (push_bit 8 x) = (unat x * 256) mod 2 ^ LENGTH('a)"
  for x :: "'a::len word"
  by (simp add: push_bit_eq_mult unat_word_ariths(2) mod_simps take_bit_eq_mod unsigned_of_nat)

lemma unat_be16: "unat (be16 hi lo) = unat hi * 256 + unat lo"
proof -
  have "unat hi * 256 + unat lo < 65536"
    using unat_u8_less [of hi] unat_u8_less [of lo] by linarith
  then show ?thesis
    unfolding be16_def or_low_byte unat_word_ariths(1) unat_push_8 by simp
qed

lemma be16_split: "be16 (ucast (drop_bit 8 d)) (ucast d) = (d :: u16)"
  by (rule bit_eqI) (auto simp: be16_def bit_simps)

lemma be16_high [simp]: "ucast (drop_bit 8 (be16 hi lo)) = hi"
  by (rule bit_eqI) (auto simp: be16_def bit_simps dest: bit_imp_le_length)

lemma be16_low [simp]: "ucast (be16 hi lo AND 255) = lo"
proof -
  have "bit (255 :: u16) n \<longleftrightarrow> n < 8" for n
    using bit_mask_iff [of 8 n, where 'a = "16 word"] by (auto simp: mask_eq_exp_minus_1)
  then show ?thesis
    by (intro bit_eqI) (auto simp: be16_def bit_simps dest: bit_imp_le_length)
qed

lemma be16_inject [simp]: "be16 a b = be16 c d \<longleftrightarrow> a = c \<and> b = d"
  by (metis be16_high be16_low)

lemma unat_be_step: "unat (be_step acc b) = (unat acc * 256 + unat b) mod 2 ^ 32"
  unfolding be_step_def or_low_byte unat_word_ariths(1) unat_push_8 by (simp add: mod_simps)

lemma unat_foldl_be_step:
  "unat (foldl be_step acc bs) = (unat acc * 256 ^ length bs + be_val bs) mod 2 ^ 32"
proof (induction bs arbitrary: acc)
  case Nil
  show ?case by simp
next
  case (Cons b bs)
  have "unat (foldl be_step acc (b # bs))
      = (((unat acc * 256 + unat b) mod 2 ^ 32) * 256 ^ length bs + be_val bs) mod 2 ^ 32"
    by (simp add: Cons.IH unat_be_step)
  also have "\<dots> = ((unat acc * 256 + unat b) * 256 ^ length bs + be_val bs) mod 2 ^ 32"
    by (metis mod_add_left_eq mod_mult_left_eq)
  finally show ?case by (simp add: algebra_simps)
qed

lemma be_val_bound: "be_val bs < 256 ^ length bs"
proof (induction bs)
  case (Cons b bs)
  have "unat b * 256 ^ length bs + be_val bs < (unat b + 1) * 256 ^ length bs"
    using Cons.IH by simp
  also have "\<dots> \<le> 256 * 256 ^ length bs"
    using unat_u8_less [of b] by (intro mult_le_mono1) linarith
  finally show ?case by simp
qed simp

section \<open>C arrays\<close>

text \<open>
  An array is the list of its bytes. \<open>buf_put off bs buf\<close> writes a block at an offset, as a
  \<open>memcpy\<close> or an assignment of one element does. Outside the array the C behaviour is
  undefined: the list is left alone and the caller records a memory fault.
\<close>

definition buf_put :: "nat \<Rightarrow> u8 list \<Rightarrow> u8 list \<Rightarrow> u8 list" where
  "buf_put off bs buf =
     (if off + length bs \<le> length buf
      then take off buf @ bs @ drop (off + length bs) buf else buf)"

lemma length_buf_put [simp]: "length (buf_put off bs buf) = length buf"
  by (simp add: buf_put_def)

lemma take_buf_put_prefix [simp]: "n \<le> off \<Longrightarrow> take n (buf_put off bs buf) = take n buf"
  by (simp add: buf_put_def)

lemma take_buf_put_exact:
  "off + length bs \<le> length buf \<Longrightarrow>
     take (off + length bs) (buf_put off bs buf) = take off buf @ bs"
  by (simp add: buf_put_def)

lemma take_buf_put_next [simp]:
  "n = Suc off \<Longrightarrow> off < length buf \<Longrightarrow> take n (buf_put off [b] buf) = take off buf @ [b]"
  using take_buf_put_exact [of off "[b]" buf] by simp

lemma nth_buf_put_before [simp]: "i < off \<Longrightarrow> buf_put off bs buf ! i = buf ! i"
  by (auto simp: buf_put_def nth_append)

lemma nth_buf_put_0 [simp]: "buf \<noteq> [] \<Longrightarrow> buf_put 0 [b] buf ! 0 = b"
  by (cases buf) (simp_all add: buf_put_def)

lemma buf_put_eq_Nil [simp]: "buf_put off bs buf = [] \<longleftrightarrow> buf = []"
  by (metis length_0_conv length_buf_put)

lemma buf_put_Cons: "buf_put (Suc k) bs (x # xs) = x # buf_put k bs xs"
  by (simp add: buf_put_def)

lemma buf_put_0_Cons: "buf_put 0 [b] (x # xs) = b # xs"
  by (simp add: buf_put_def)

lemma take_drop_buf_put [simp]:
  "off + length bs \<le> length buf \<Longrightarrow> take (length bs) (drop off (buf_put off bs buf)) = bs"
  by (simp add: buf_put_def)

lemma take_eq_nth: "take n xs = take n ys \<Longrightarrow> i < n \<Longrightarrow> xs ! i = ys ! i"
  by (metis nth_take)

text \<open>The frames the services assemble byte by byte at the start of an array.\<close>

lemma take_buf_put_first: "buf \<noteq> [] \<Longrightarrow> take (Suc 0) (buf_put 0 [a] buf) = [a]"
  by (cases buf) (simp_all add: buf_put_0_Cons)

lemma take_head:
  "2 \<le> length buf \<Longrightarrow> take 2 (buf_put (Suc 0) [k] (buf_put 0 [h] buf)) = [h, k]"
  "3 \<le> length buf \<Longrightarrow> take 3 (buf_put 2 [b] (buf_put (Suc 0) [k] (buf_put 0 [h] buf))) = [h, k, b]"
  "4 \<le> length buf \<Longrightarrow>
     take 4 (buf_put 3 [d] (buf_put 2 [b] (buf_put (Suc 0) [k] (buf_put 0 [h] buf)))) = [h, k, b, d]"
  "5 \<le> length buf \<Longrightarrow>
     take 5 (buf_put 4 [f] (buf_put 3 [d] (buf_put 2 [b] (buf_put (Suc 0) [k] (buf_put 0 [h] buf)))))
       = [h, k, b, d, f]"
  by (cases "buf = []"; simp add: take_buf_put_first)+

lemma take_seed_frame:
  "2 + length sd \<le> length buf \<Longrightarrow>
     take (2 + length sd) (buf_put 2 sd (buf_put 1 [k] (buf_put 0 [h] buf))) = h # k # sd"
proof -
  assume *: "2 + length sd \<le> length buf"
  then obtain x y zs where "buf = x # y # zs"
    by (metis One_nat_def Suc_1 Suc_le_length_iff add_leD1)
  with * show ?thesis by (simp add: numeral_2_eq_2 buf_put_Cons buf_put_0_Cons, simp add: buf_put_def)
qed

end
