(* ===== verification/Uds_Types.thy ===== *)
theory Uds_Types
  imports Uds_Prelude
begin

text \<open>
  The types of \<open>include/zephyr/canbus/uds_types.h\<close> and the build-time configuration of
  \<open>src/Kconfig.uds\<close>: negative response codes, enumerations, and the constants the
  components read as \<open>CONFIG_...\<close>.
\<close>

section \<open>Negative response codes\<close>

definition UDS_NRC_SERVICE_NOT_SUPPORTED :: u8 where
  [simp]: "UDS_NRC_SERVICE_NOT_SUPPORTED = 0x11"
definition UDS_NRC_SUB_FUNCTION_NOT_SUPPORTED :: u8 where
  [simp]: "UDS_NRC_SUB_FUNCTION_NOT_SUPPORTED = 0x12"
definition UDS_NRC_INCORRECT_LENGTH_OR_INVALID_FORMAT :: u8 where
  [simp]: "UDS_NRC_INCORRECT_LENGTH_OR_INVALID_FORMAT = 0x13"
definition UDS_NRC_CONDITIONS_NOT_CORRECT :: u8 where
  [simp]: "UDS_NRC_CONDITIONS_NOT_CORRECT = 0x22"
definition UDS_NRC_REQUEST_SEQUENCE_ERROR :: u8 where
  [simp]: "UDS_NRC_REQUEST_SEQUENCE_ERROR = 0x24"
definition UDS_NRC_REQUEST_OUT_OF_RANGE :: u8 where
  [simp]: "UDS_NRC_REQUEST_OUT_OF_RANGE = 0x31"
definition UDS_NRC_SECURITY_ACCESS_DENIED :: u8 where
  [simp]: "UDS_NRC_SECURITY_ACCESS_DENIED = 0x33"
definition UDS_NRC_INVALID_KEY :: u8 where
  [simp]: "UDS_NRC_INVALID_KEY = 0x35"
definition UDS_NRC_EXCEEDED_NUMBER_OF_ATTEMPTS :: u8 where
  [simp]: "UDS_NRC_EXCEEDED_NUMBER_OF_ATTEMPTS = 0x36"
definition UDS_NRC_UPLOAD_DOWNLOAD_NOT_ACCEPTED :: u8 where
  [simp]: "UDS_NRC_UPLOAD_DOWNLOAD_NOT_ACCEPTED = 0x70"
definition UDS_NRC_TRANSFER_DATA_SUSPENDED :: u8 where
  [simp]: "UDS_NRC_TRANSFER_DATA_SUSPENDED = 0x71"
definition UDS_NRC_WRONG_BLOCK_SEQUENCE_COUNTER :: u8 where
  [simp]: "UDS_NRC_WRONG_BLOCK_SEQUENCE_COUNTER = 0x73"
definition UDS_NRC_RESPONSE_PENDING :: u8 where
  [simp]: "UDS_NRC_RESPONSE_PENDING = 0x78"
definition UDS_NRC_SUB_FUNCTION_NOT_SUPPORTED_IN_ACTIVE_SESS :: u8 where
  [simp]: "UDS_NRC_SUB_FUNCTION_NOT_SUPPORTED_IN_ACTIVE_SESS = 0x7E"
definition UDS_NRC_SERVICE_NOT_SUPPORTED_IN_ACTIVE_SESSION :: u8 where
  [simp]: "UDS_NRC_SERVICE_NOT_SUPPORTED_IN_ACTIVE_SESSION = 0x7F"

definition VIN_SIZE :: nat where
  [simp]: "VIN_SIZE = 17"

section \<open>Enumerations\<close>

datatype uds_addressing = UDS_ADDR_PHYSICAL | UDS_ADDR_FUNCTIONAL

datatype uds_session_type =
  UDS_SESSION_DEFAULT | UDS_SESSION_PROGRAMMING | UDS_SESSION_EXTENDED

datatype uds_security_status =
  UDS_SEC_LOCKED | UDS_SEC_SEED_REQUESTED | UDS_SEC_UNLOCKED | UDS_SEC_BRUTE_FORCE_LOCKOUT

datatype routine_status = ROUTINE_IDLE | ROUTINE_RUNNING | ROUTINE_COMPLETED | ROUTINE_FAILED

text \<open>
  The cast \<open>(uds_session_type_t)req_sess\<close> of the session service. Its one use stands behind
  the check that the byte is 1, 2 or 3, so the last branch is the byte 3.
\<close>

definition uds_session_type_of :: "u8 \<Rightarrow> uds_session_type" where
  "uds_session_type_of b =
     (if b = 0x01 then UDS_SESSION_DEFAULT
      else if b = 0x02 then UDS_SESSION_PROGRAMMING else UDS_SESSION_EXTENDED)"

text \<open>A diagnostic trouble code, and its reading from the four bytes of the C struct.\<close>

record uds_dtc =
  code :: "u8 list"
  status :: u8

definition uds_dtc_of_bytes :: "u8 list \<Rightarrow> uds_dtc" where
  "uds_dtc_of_bytes bs = \<lparr>code = [bs ! 0, bs ! 1, bs ! 2], status = bs ! 3\<rparr>"

section \<open>Build configuration\<close>

record kconfig =
  CONFIG_UDS_CAN_RX_ID :: u32
  CONFIG_UDS_CAN_FUNC_RX_ID :: u32
  CONFIG_UDS_CAN_TX_ID :: u32
  CONFIG_UDS_BUFF_SIZE :: nat
  CONFIG_UDS_S3_TIMEOUT_MS :: nat
  CONFIG_UDS_SEC_MAX_FAILED_ATTEMPTS :: nat
  CONFIG_UDS_SEC_LOCKOUT_TIME_MS :: nat
  CONFIG_UDS_SEC_SEED_SIZE :: nat
  CONFIG_UDS_SEC_SECRET_MASK :: u32

text \<open>The ranges Kconfig enforces, and its defaults. The identifiers and the mask have no range.\<close>

definition kconfig_ok :: "kconfig \<Rightarrow> bool" where
  "kconfig_ok c \<longleftrightarrow>
     64 \<le> CONFIG_UDS_BUFF_SIZE c \<and> CONFIG_UDS_BUFF_SIZE c \<le> 4095 \<and>
     1000 \<le> CONFIG_UDS_S3_TIMEOUT_MS c \<and> CONFIG_UDS_S3_TIMEOUT_MS c \<le> 10000 \<and>
     1 \<le> CONFIG_UDS_SEC_MAX_FAILED_ATTEMPTS c \<and> CONFIG_UDS_SEC_MAX_FAILED_ATTEMPTS c \<le> 10 \<and>
     1000 \<le> CONFIG_UDS_SEC_LOCKOUT_TIME_MS c \<and> CONFIG_UDS_SEC_LOCKOUT_TIME_MS c \<le> 600000 \<and>
     4 \<le> CONFIG_UDS_SEC_SEED_SIZE c \<and> CONFIG_UDS_SEC_SEED_SIZE c \<le> 32"

definition kconfig_default :: kconfig where
  "kconfig_default =
     \<lparr>CONFIG_UDS_CAN_RX_ID = 0x7E0, CONFIG_UDS_CAN_FUNC_RX_ID = 0x7DF, CONFIG_UDS_CAN_TX_ID = 0x7E8,
      CONFIG_UDS_BUFF_SIZE = 4095, CONFIG_UDS_S3_TIMEOUT_MS = 5000,
      CONFIG_UDS_SEC_MAX_FAILED_ATTEMPTS = 3, CONFIG_UDS_SEC_LOCKOUT_TIME_MS = 10000,
      CONFIG_UDS_SEC_SEED_SIZE = 4, CONFIG_UDS_SEC_SECRET_MASK = 0xABCDE123\<rparr>"

lemma kconfig_default_ok [simp]: "kconfig_ok kconfig_default"
  by (simp add: kconfig_ok_def kconfig_default_def)

section \<open>Error numbers of the C library\<close>

definition ENOENT :: int where [simp]: "ENOENT = 2"
definition EIO :: int where [simp]: "EIO = 5"
definition ENXIO :: int where [simp]: "ENXIO = 6"
definition ENOMEM :: int where [simp]: "ENOMEM = 12"
definition EACCES :: int where [simp]: "EACCES = 13"
definition ENODEV :: int where [simp]: "ENODEV = 19"
definition EINVAL :: int where [simp]: "EINVAL = 22"
definition EOPNOTSUPP :: int where [simp]: "EOPNOTSUPP = 95"

end
