(* ===== verification/Uds_Env.thy ===== *)
theory Uds_Env
  imports Uds_Types
begin

text \<open>
  The surroundings of the module: the Zephyr calls it makes and the application hooks of
  \<open>include/zephyr/canbus/uds_app_interface.h\<close>. Neither is code of this repository, so both are
  parameters. Every call is recorded, with its arguments, in a trace (newest call first), and a call whose
  result the code uses takes that result from a function of the trace so far. Since each call
  extends the trace, such a function can answer the same call differently each time: one
  \<open>env\<close> stands for any application and any kernel behaviour of one run.
\<close>

section \<open>Calls to the outside\<close>

datatype timer = S3_timer | Lockout_timer | Reset_timer | Routine_nrc78_timer | Clear_nrc78_timer

datatype work = Routine_work | Clear_dtc_work

datatype device = Can_dev | Entropy_dev | Storage_partition_device

datatype link = Rx_link | Func_rx_link

datatype reboot_mode = SYS_REBOOT_WARM | SYS_REBOOT_COLD

text \<open>
  The addresses of a link and the flow control options of ISO-TP, with the fields the code sets. \<open>link\<close>
  names the receive context, \<open>rx_ctx\<close> or \<open>func_rx_ctx\<close>.
\<close>

record isotp_msg_id =
  std_id :: u32
  id_flags :: u8
  ext_addr :: u8
  id_dl :: u8

record isotp_fc_opts =
  fc_bs :: u8
  fc_stmin :: u8

text \<open>
  The NVS instances: the one \<open>uds_security.c\<close> owns, and the ones the application hands out.
\<close>

datatype nvs_fs = Security_fs | App_fs nat

datatype event =
    Isotp_bind link isotp_msg_id isotp_msg_id isotp_fc_opts
  | Isotp_recv link nat
  | Isotp_send "u8 list"
  | Can_start
  | Device_is_ready device
  | K_thread_create nat int
  | K_timer_init timer
  | K_timer_start timer nat nat
  | K_timer_stop timer
  | K_timer_expired timer
  | K_work_init work
  | K_work_submit work
  | K_work_is_pending work
  | K_work_begin work
  | K_work_done work
  | K_msleep nat
  | K_uptime_get_32
  | Sys_reboot reboot_mode
  | Entropy_get_entropy nat
  | Flash_get_page_info_by_offs
  | Nvs_mount
  | Nvs_read nvs_fs u16 nat
  | Nvs_write nvs_fs u16 "u8 list"
  | App_read_did u16 nat
  | App_write_did u16 "u8 list"
  | App_io_control u16 u8 "u8 list"
  | App_routine_start u16
  | App_routine_request_results u16
  | App_flash_erase_target u32 u32
  | App_flash_write_block u32 "u8 list"
  | App_get_freeze_frame u32 u8 nat
  | App_verify_key_krypto u8 "u8 list" "u8 list"
  | App_get_periodic_did u8
  | App_get_nvs_context
  | App_clear_persistent_dtcs nvs_fs u32
  | App_write_persistent_data nvs_fs u16 "u8 list"

text \<open>
  \<open>K_timer_expired\<close>, \<open>K_work_begin\<close> and \<open>K_work_done\<close> are not calls of the code: the kernel records with them
  that it ran an expiry function, took a work item from the queue or saw its handler return.
\<close>

type_synonym trace = "event list"

section \<open>Application hooks\<close>

text \<open>
  A hook gets the trace, its arguments and the initial contents of its output variables, and
  returns its result code with the new contents. An output buffer is given back as the bytes
  the hook stores from the start of the buffer.
\<close>

record app_hooks =
  uds_app_read_did :: "trace \<Rightarrow> u16 \<Rightarrow> nat \<Rightarrow> nat \<Rightarrow> int \<times> u8 list \<times> nat"
  uds_app_write_did :: "trace \<Rightarrow> u16 \<Rightarrow> u8 list \<Rightarrow> int"
  uds_app_io_control :: "trace \<Rightarrow> u16 \<Rightarrow> u8 \<Rightarrow> u8 list \<Rightarrow> u8 \<Rightarrow> int \<times> u8"
  uds_app_routine_start :: "trace \<Rightarrow> u16 \<Rightarrow> u8 \<Rightarrow> int \<times> u8"
  uds_app_routine_request_results :: "trace \<Rightarrow> u16 \<Rightarrow> u8 \<Rightarrow> u8 \<Rightarrow> int \<times> u8 \<times> u8"
  uds_app_flash_erase_target :: "trace \<Rightarrow> u32 \<Rightarrow> u32 \<Rightarrow> int"
  uds_app_flash_write_block :: "trace \<Rightarrow> u32 \<Rightarrow> u8 list \<Rightarrow> int"
  uds_app_get_freeze_frame :: "trace \<Rightarrow> u32 \<Rightarrow> u8 \<Rightarrow> nat \<Rightarrow> nat \<Rightarrow> int \<times> u8 list \<times> nat"
  uds_app_verify_key_krypto :: "trace \<Rightarrow> u8 \<Rightarrow> u8 list \<Rightarrow> u8 list \<Rightarrow> int"
  uds_app_get_periodic_did :: "trace \<Rightarrow> u8 \<Rightarrow> nat \<Rightarrow> int \<times> u8 list \<times> nat"
  uds_app_get_nvs_context :: "trace \<Rightarrow> nvs_fs option"
  uds_app_clear_persistent_dtcs :: "trace \<Rightarrow> nvs_fs \<Rightarrow> u32 \<Rightarrow> int"
  uds_app_write_persistent_data :: "trace \<Rightarrow> nvs_fs \<Rightarrow> u16 \<Rightarrow> u8 list \<Rightarrow> int"

section \<open>Zephyr\<close>

text \<open>
  \<open>nvs_read\<close> returns its result code and the bytes it stores at the start of the caller's
  buffer, \<open>entropy_get_entropy\<close> the bytes it stores, \<open>isotp_recv\<close> its result code and the
  received bytes. \<open>uninit\<close> gives the contents of memory the code reads before it wrote it.
\<close>

record env =
  app :: app_hooks
  device_is_ready :: "trace \<Rightarrow> device \<Rightarrow> bool"
  flash_get_page_info_by_offs :: "trace \<Rightarrow> int \<times> nat"
  STORAGE_PARTITION_SIZE :: nat
  nvs_mount :: "trace \<Rightarrow> int"
  nvs_read :: "trace \<Rightarrow> nvs_fs \<Rightarrow> u16 \<Rightarrow> nat \<Rightarrow> int \<times> u8 list"
  entropy_get_entropy :: "trace \<Rightarrow> nat \<Rightarrow> u8 list"
  k_uptime_get_32 :: "trace \<Rightarrow> u32"
  k_work_is_pending :: "trace \<Rightarrow> work \<Rightarrow> bool"
  isotp_bind :: "trace \<Rightarrow> link \<Rightarrow> int"
  isotp_recv :: "trace \<Rightarrow> link \<Rightarrow> nat \<Rightarrow> int \<times> u8 list"
  uninit :: "trace \<Rightarrow> nat \<Rightarrow> u8"

text \<open>An array of \<open>n\<close> bytes on the stack before its first assignment.\<close>

definition uninit_buf :: "env \<Rightarrow> trace \<Rightarrow> nat \<Rightarrow> u8 list" where
  "uninit_buf e tr n = map (uninit e tr) [0..<n]"

lemma length_uninit_buf [simp]: "length (uninit_buf e tr n) = n"
  by (simp add: uninit_buf_def)

section \<open>What the trace says of the kernel objects\<close>

text \<open>
  The documented behaviour of a Zephyr timer: \<open>k_timer_start\<close> arms it, \<open>k_timer_stop\<close> and
  \<open>k_timer_init\<close> leave it unarmed, and an expiry unarms it unless it has a period. The value
  is the period of an armed timer.
\<close>

fun timer_mode :: "timer \<Rightarrow> trace \<Rightarrow> nat option" where
  "timer_mode t [] = None"
| "timer_mode t (K_timer_start t' d p # tr) = (if t' = t then Some p else timer_mode t tr)"
| "timer_mode t (K_timer_stop t' # tr) = (if t' = t then None else timer_mode t tr)"
| "timer_mode t (K_timer_init t' # tr) = (if t' = t then None else timer_mode t tr)"
| "timer_mode t (K_timer_expired t' # tr) =
     (if t' = t
      then (case timer_mode t tr of Some p \<Rightarrow> if p = 0 then None else Some p | None \<Rightarrow> None)
      else timer_mode t tr)"
| "timer_mode t (_ # tr) = timer_mode t tr"

definition timer_running :: "timer \<Rightarrow> trace \<Rightarrow> bool" where
  "timer_running t tr \<longleftrightarrow> timer_mode t tr \<noteq> None"

text \<open>
  The documented behaviour of a Zephyr work queue: an item waits there once at most, also when it is submitted while
  its handler runs, and the oldest comes first. An item is busy while it waits or its handler runs.
\<close>

fun work_queue :: "trace \<Rightarrow> work list" where
  "work_queue [] = []"
| "work_queue (K_work_submit w # tr) = (if w \<in> set (work_queue tr) then work_queue tr else work_queue tr @ [w])"
| "work_queue (K_work_begin w # tr) = filter (\<lambda>w'. w' \<noteq> w) (work_queue tr)"
| "work_queue (_ # tr) = work_queue tr"

fun work_busy :: "work \<Rightarrow> trace \<Rightarrow> bool" where
  "work_busy w [] = False"
| "work_busy w (K_work_submit w' # tr) = (w' = w \<or> work_busy w tr)"
| "work_busy w (K_work_begin w' # tr) = (w' = w \<or> work_busy w tr)"
| "work_busy w (K_work_done w' # tr) = (if w' = w then w \<in> set (work_queue tr) else work_busy w tr)"
| "work_busy w (_ # tr) = work_busy w tr"

abbreviation queued :: "work \<Rightarrow> trace \<Rightarrow> bool" where
  "queued w tr \<equiv> w \<in> set (work_queue tr)"

lemma queued_busy: "queued w tr \<Longrightarrow> work_busy w tr"
  by (induction w tr rule: work_busy.induct) (auto split: if_splits)

lemma next_busy: "work_queue tr = w # ws \<Longrightarrow> work_busy w tr"
  by (rule queued_busy) simp

text \<open>The frames handed to the transmit link, newest first.\<close>

fun frames :: "trace \<Rightarrow> u8 list list" where
  "frames [] = []"
| "frames (Isotp_send f # tr) = f # frames tr"
| "frames (_ # tr) = frames tr"

lemma frames_append [simp]: "frames (xs @ ys) = frames xs @ frames ys"
  by (induction xs rule: frames.induct) simp_all

lemma in_set_frames [simp]: "f \<in> set (frames tr) \<longleftrightarrow> Isotp_send f \<in> set tr"
  by (induction tr rule: frames.induct) auto

end
