(* ===== verification/Uds_Weak_Defaults.thy ===== *)
theory Uds_Weak_Defaults
  imports Uds_Env
begin

text \<open>
  The weak fallbacks of \<open>src/uds_weak_defaults.c\<close>: each refuses its service and leaves its
  output arguments as they are. \<open>weak_hooks\<close> is the application interface of a build in which
  the application overrides none of them.
\<close>

definition weak_uds_app_read_did ::
    "trace \<Rightarrow> u16 \<Rightarrow> nat \<Rightarrow> nat \<Rightarrow> int \<times> u8 list \<times> nat" where
  "weak_uds_app_read_did tr did len_out max_len = (- ENOENT, [], len_out)"

definition weak_uds_app_write_did :: "trace \<Rightarrow> u16 \<Rightarrow> u8 list \<Rightarrow> int" where
  "weak_uds_app_write_did tr did data_in = - EACCES"

definition weak_uds_app_calculate_key :: "u8 list \<Rightarrow> u32" where
  "weak_uds_app_calculate_key seed = 0x00000000"

definition weak_uds_app_io_control ::
    "trace \<Rightarrow> u16 \<Rightarrow> u8 \<Rightarrow> u8 list \<Rightarrow> u8 \<Rightarrow> int \<times> u8" where
  "weak_uds_app_io_control tr did control_param control_state status_out = (- ENOENT, status_out)"

definition weak_uds_app_routine_start :: "trace \<Rightarrow> u16 \<Rightarrow> u8 \<Rightarrow> int \<times> u8" where
  "weak_uds_app_routine_start tr routine_id info_out = (- ENOENT, info_out)"

definition weak_uds_app_routine_request_results ::
    "trace \<Rightarrow> u16 \<Rightarrow> u8 \<Rightarrow> u8 \<Rightarrow> int \<times> u8 \<times> u8" where
  "weak_uds_app_routine_request_results tr routine_id status_out exit_info_out =
     (- ENOENT, status_out, exit_info_out)"

definition weak_uds_app_flash_erase_target :: "trace \<Rightarrow> u32 \<Rightarrow> u32 \<Rightarrow> int" where
  "weak_uds_app_flash_erase_target tr address sz = - EOPNOTSUPP"

definition weak_uds_app_flash_write_block :: "trace \<Rightarrow> u32 \<Rightarrow> u8 list \<Rightarrow> int" where
  "weak_uds_app_flash_write_block tr address_offset data = - EOPNOTSUPP"

definition weak_uds_app_get_freeze_frame ::
    "trace \<Rightarrow> u32 \<Rightarrow> u8 \<Rightarrow> nat \<Rightarrow> nat \<Rightarrow> int \<times> u8 list \<times> nat" where
  "weak_uds_app_get_freeze_frame tr dtc record_num len_out max_len = (- ENOENT, [], len_out)"

definition weak_uds_app_verify_key_krypto :: "trace \<Rightarrow> u8 \<Rightarrow> u8 list \<Rightarrow> u8 list \<Rightarrow> int" where
  "weak_uds_app_verify_key_krypto tr security_level seed received_key = - EACCES"

definition weak_uds_app_get_periodic_did ::
    "trace \<Rightarrow> u8 \<Rightarrow> nat \<Rightarrow> int \<times> u8 list \<times> nat" where
  "weak_uds_app_get_periodic_did tr periodic_did len_out = (- ENOENT, [], len_out)"

definition weak_uds_app_get_nvs_context :: "trace \<Rightarrow> nvs_fs option" where
  "weak_uds_app_get_nvs_context tr = None"

definition weak_uds_app_clear_persistent_dtcs :: "trace \<Rightarrow> nvs_fs \<Rightarrow> u32 \<Rightarrow> int" where
  "weak_uds_app_clear_persistent_dtcs tr fs dtc_group = - EOPNOTSUPP"

definition weak_uds_app_write_persistent_data ::
    "trace \<Rightarrow> nvs_fs \<Rightarrow> u16 \<Rightarrow> u8 list \<Rightarrow> int" where
  "weak_uds_app_write_persistent_data tr fs nvs_id data = - EOPNOTSUPP"

definition weak_hooks :: app_hooks where
  "weak_hooks =
     \<lparr>uds_app_read_did = weak_uds_app_read_did,
      uds_app_write_did = weak_uds_app_write_did,
      uds_app_io_control = weak_uds_app_io_control,
      uds_app_routine_start = weak_uds_app_routine_start,
      uds_app_routine_request_results = weak_uds_app_routine_request_results,
      uds_app_flash_erase_target = weak_uds_app_flash_erase_target,
      uds_app_flash_write_block = weak_uds_app_flash_write_block,
      uds_app_get_freeze_frame = weak_uds_app_get_freeze_frame,
      uds_app_verify_key_krypto = weak_uds_app_verify_key_krypto,
      uds_app_get_periodic_did = weak_uds_app_get_periodic_did,
      uds_app_get_nvs_context = weak_uds_app_get_nvs_context,
      uds_app_clear_persistent_dtcs = weak_uds_app_clear_persistent_dtcs,
      uds_app_write_persistent_data = weak_uds_app_write_persistent_data\<rparr>"

lemmas weak_defs =
  weak_uds_app_read_did_def weak_uds_app_write_did_def weak_uds_app_io_control_def
  weak_uds_app_routine_start_def weak_uds_app_routine_request_results_def
  weak_uds_app_flash_erase_target_def weak_uds_app_flash_write_block_def
  weak_uds_app_get_freeze_frame_def weak_uds_app_verify_key_krypto_def
  weak_uds_app_get_periodic_did_def weak_uds_app_get_nvs_context_def
  weak_uds_app_clear_persistent_dtcs_def weak_uds_app_write_persistent_data_def

section \<open>A concrete environment\<close>

text \<open>
  Devices are ready, flash pages are 4 KiB, the NVS partition holds nothing, the entropy source
  yields zeros, a work item is pending while it is busy, and nothing is received. Concrete runs start from it and override the hooks
  they need.
\<close>

definition quiet_env :: "app_hooks \<Rightarrow> env" where
  "quiet_env h =
     \<lparr>app = h,
      device_is_ready = (\<lambda>tr d. True),
      flash_get_page_info_by_offs = (\<lambda>tr. (0, 4096)),
      STORAGE_PARTITION_SIZE = 16384,
      nvs_mount = (\<lambda>tr. 0),
      nvs_read = (\<lambda>tr fs i n. (- ENOENT, [])),
      entropy_get_entropy = (\<lambda>tr n. replicate n 0),
      k_uptime_get_32 = (\<lambda>tr. 0),
      k_work_is_pending = (\<lambda>tr w. work_busy w tr),
      isotp_bind = (\<lambda>tr l. 0),
      isotp_recv = (\<lambda>tr l n. (- 1, [])),
      uninit = (\<lambda>tr i. 0)\<rparr>"

lemma quiet_env_sel [simp]:
  "app (quiet_env h) = h"
  "device_is_ready (quiet_env h) tr d"
  "k_work_is_pending (quiet_env h) tr w = work_busy w tr"
  "nvs_read (quiet_env h) tr fs i n = (- ENOENT, [])"
  "entropy_get_entropy (quiet_env h) tr n = replicate n 0"
  "uninit (quiet_env h) tr k = 0"
  by (simp_all add: quiet_env_def)

text \<open>Hooks that hand out an NVS instance, for concrete runs.\<close>

definition nvs_hooks :: app_hooks where
  "nvs_hooks = weak_hooks\<lparr>uds_app_get_nvs_context := \<lambda>evs. Some (App_fs 0)\<rparr>"

end
