(* ===== verification/Uds_Transport.thy ===== *)
theory Uds_Transport
  imports Uds_Weak_Defaults
begin

text \<open>
  The transmit side of \<open>src/uds_server.c\<close> that every service calls back into:
  \<open>uds_send_response\<close>, \<open>uds_send_nrc\<close> and \<open>uds_trigger_event_response\<close>, with the state they
  share. That state is the trace of calls, the addressing mode of the request being processed, the shared
  transmit buffer, and a flag that records whether an access outside an array, a shift by the width of the word or
  a division by zero has happened. In C each of these is undefined behaviour, so what the model computes means
  something only while the flag is unset; it is never cleared.
\<close>

section \<open>State\<close>

record io =
  trace :: trace
  current_msg_addressing :: uds_addressing
  uds_tx_buf :: "u8 list"
  mem_fault :: bool

text \<open>The static initialisers.\<close>

definition io_0 :: "kconfig \<Rightarrow> io" where
  "io_0 c = \<lparr>trace = [], current_msg_addressing = UDS_ADDR_PHYSICAL,
             uds_tx_buf = replicate (CONFIG_UDS_BUFF_SIZE c) 0, mem_fault = False\<rparr>"

definition emit :: "event \<Rightarrow> io \<Rightarrow> io" where
  "emit ev i = i\<lparr>trace := ev # trace i\<rparr>"

definition fault_if :: "bool \<Rightarrow> io \<Rightarrow> io" where
  "fault_if b i = i\<lparr>mem_fault := mem_fault i \<or> b\<rparr>"

text \<open>Assignments to \<open>uds_tx_buf\<close> from an offset.\<close>

definition tx_put :: "nat \<Rightarrow> u8 list \<Rightarrow> io \<Rightarrow> io" where
  "tx_put off bs i =
     (fault_if (off + length bs > length (uds_tx_buf i)) i)
       \<lparr>uds_tx_buf := buf_put off bs (uds_tx_buf i)\<rparr>"

section \<open>Sending\<close>

text \<open>\<open>isotp_send\<close> reads \<open>len\<close> bytes of the array; its result is only logged.\<close>

definition uds_send_response :: "u8 list \<Rightarrow> nat \<Rightarrow> io \<Rightarrow> io" where
  "uds_send_response data len i =
     emit (Isotp_send (take len data)) (fault_if (length data < len) i)"

definition uds_send_nrc :: "u8 \<Rightarrow> u8 \<Rightarrow> io \<Rightarrow> io" where
  "uds_send_nrc sid nrc i =
     (let nrc_buf = [0x7F, sid, nrc] in
      if current_msg_addressing i = UDS_ADDR_FUNCTIONAL \<and> nrc \<noteq> UDS_NRC_RESPONSE_PENDING
      then i
      else uds_send_response nrc_buf (length nrc_buf) i)"

text \<open>
  The callbacks the services receive and store. The server passes these two functions and no
  others, so a function pointer is one of these constructors.
\<close>

datatype send_cb = Uds_send_response

datatype nrc_cb = Uds_send_nrc

primrec call_send :: "send_cb \<Rightarrow> u8 list \<Rightarrow> nat \<Rightarrow> io \<Rightarrow> io" where
  "call_send Uds_send_response = uds_send_response"

primrec call_nrc :: "nrc_cb \<Rightarrow> u8 \<Rightarrow> u8 \<Rightarrow> io \<Rightarrow> io" where
  "call_nrc Uds_send_nrc = uds_send_nrc"

text \<open>\<open>send_cb(tx_buf, n)\<close>.\<close>

definition send_tx :: "send_cb \<Rightarrow> nat \<Rightarrow> io \<Rightarrow> io" where
  "send_tx send n i = call_send send (uds_tx_buf i) n i"

text \<open>
  The event notification. \<open>event_buf\<close> is a stack array of \<open>UDS_BUFF_SIZE\<close> bytes; a payload
  that does not pass the test is not copied, but the length sent is the same.
\<close>

definition uds_trigger_event_response ::
    "kconfig \<Rightarrow> env \<Rightarrow> u8 \<Rightarrow> u8 list option \<Rightarrow> nat \<Rightarrow> io \<Rightarrow> io" where
  "uds_trigger_event_response c e event_type payload len i =
     (let event_buf = uninit_buf e (trace i) (CONFIG_UDS_BUFF_SIZE c);
          event_buf = buf_put 0 [0x86] event_buf;
          event_buf = buf_put 1 [event_type] event_buf
      in case payload of
           Some p \<Rightarrow>
             (if len > 0 \<and> len + 2 < CONFIG_UDS_BUFF_SIZE c
              then uds_send_response (buf_put 2 (take len p) event_buf) (2 + len)
                     (fault_if (length p < len) i)
              else uds_send_response event_buf (2 + len) i)
         | None \<Rightarrow> uds_send_response event_buf (2 + len) i)"

section \<open>Reading into a buffer\<close>

text \<open>\<open>nvs_read(fs, id, buf, sizeof(buf))\<close>: result code and new contents of the buffer.\<close>

definition nvs_read_into ::
    "env \<Rightarrow> nvs_fs \<Rightarrow> u16 \<Rightarrow> u8 list \<Rightarrow> io \<Rightarrow> int \<times> u8 list \<times> io" where
  "nvs_read_into e fs nvs_id buf i =
     (let (ret, bs) = nvs_read e (trace i) fs nvs_id (length buf)
      in (ret, buf_put 0 (take (length buf) bs) buf, emit (Nvs_read fs nvs_id (length buf)) i))"

section \<open>Frame rules\<close>

lemma emit_sel [simp]:
  "trace (emit ev i) = ev # trace i"
  "current_msg_addressing (emit ev i) = current_msg_addressing i"
  "uds_tx_buf (emit ev i) = uds_tx_buf i"
  "mem_fault (emit ev i) = mem_fault i"
  by (simp_all add: emit_def)

lemma fault_if_sel [simp]:
  "trace (fault_if b i) = trace i"
  "current_msg_addressing (fault_if b i) = current_msg_addressing i"
  "uds_tx_buf (fault_if b i) = uds_tx_buf i"
  "mem_fault (fault_if b i) \<longleftrightarrow> mem_fault i \<or> b"
  by (simp_all add: fault_if_def)

lemma tx_put_sel [simp]:
  "trace (tx_put off bs i) = trace i"
  "current_msg_addressing (tx_put off bs i) = current_msg_addressing i"
  "uds_tx_buf (tx_put off bs i) = buf_put off bs (uds_tx_buf i)"
  "mem_fault (tx_put off bs i) \<longleftrightarrow> mem_fault i \<or> off + length bs > length (uds_tx_buf i)"
  by (simp_all add: tx_put_def)

lemma uds_send_response_sel [simp]:
  "trace (uds_send_response d n i) = Isotp_send (take n d) # trace i"
  "current_msg_addressing (uds_send_response d n i) = current_msg_addressing i"
  "uds_tx_buf (uds_send_response d n i) = uds_tx_buf i"
  "mem_fault (uds_send_response d n i) \<longleftrightarrow> mem_fault i \<or> length d < n"
  by (simp_all add: uds_send_response_def)

definition nrc_trace :: "u8 \<Rightarrow> u8 \<Rightarrow> uds_addressing \<Rightarrow> trace" where
  "nrc_trace sid nrc a =
     (if a = UDS_ADDR_FUNCTIONAL \<and> nrc \<noteq> UDS_NRC_RESPONSE_PENDING then []
      else [Isotp_send [0x7F, sid, nrc]])"

lemma uds_send_nrc_sel [simp]:
  "trace (uds_send_nrc sid nrc i) = nrc_trace sid nrc (current_msg_addressing i) @ trace i"
  "current_msg_addressing (uds_send_nrc sid nrc i) = current_msg_addressing i"
  "uds_tx_buf (uds_send_nrc sid nrc i) = uds_tx_buf i"
  "mem_fault (uds_send_nrc sid nrc i) = mem_fault i"
  by (simp_all add: uds_send_nrc_def nrc_trace_def Let_def)

lemma nrc_trace_physical [simp]:
  "nrc_trace sid nrc UDS_ADDR_PHYSICAL = [Isotp_send [0x7F, sid, nrc]]"
  by (simp add: nrc_trace_def)

lemma call_send_eq [simp]: "call_send cb = uds_send_response"
  by (cases cb) simp

lemma call_nrc_eq [simp]: "call_nrc cb = uds_send_nrc"
  by (cases cb) simp

lemma send_tx_sel [simp]:
  "trace (send_tx cb n i) = Isotp_send (take n (uds_tx_buf i)) # trace i"
  "current_msg_addressing (send_tx cb n i) = current_msg_addressing i"
  "uds_tx_buf (send_tx cb n i) = uds_tx_buf i"
  "mem_fault (send_tx cb n i) \<longleftrightarrow> mem_fault i \<or> length (uds_tx_buf i) < n"
  by (simp_all add: send_tx_def)

lemma nvs_read_into_sel [simp]:
  "fst (nvs_read_into e fs k buf i) = fst (nvs_read e (trace i) fs k (length buf))"
  "length (fst (snd (nvs_read_into e fs k buf i))) = length buf"
  "trace (snd (snd (nvs_read_into e fs k buf i))) = Nvs_read fs k (length buf) # trace i"
  "current_msg_addressing (snd (snd (nvs_read_into e fs k buf i))) = current_msg_addressing i"
  "uds_tx_buf (snd (snd (nvs_read_into e fs k buf i))) = uds_tx_buf i"
  "mem_fault (snd (snd (nvs_read_into e fs k buf i))) = mem_fault i"
  by (simp_all add: nvs_read_into_def split: prod.splits)

section \<open>Properties\<close>

text \<open>
  An event notification whose payload fits is sent as 0x86, the event type and the payload, without
  any access outside an array.
\<close>

theorem event_response_frame:
  assumes "kconfig_ok c" "length p = len" "0 < len" "len + 2 < CONFIG_UDS_BUFF_SIZE c"
  shows "trace (uds_trigger_event_response c e ev (Some p) len i) = Isotp_send (0x86 # ev # p) # trace i \<and>
    mem_fault (uds_trigger_event_response c e ev (Some p) len i) = mem_fault i"
proof -
  have l: "length (uninit_buf e (trace i) (CONFIG_UDS_BUFF_SIZE c)) = CONFIG_UDS_BUFF_SIZE c" by simp
  then have t: "take (2 + length p) (buf_put 2 p (buf_put 1 [ev] (buf_put 0 [0x86]
      (uninit_buf e (trace i) (CONFIG_UDS_BUFF_SIZE c))))) = 0x86 # ev # p"
    using assms(2,4) by (intro take_seed_frame) simp
  show ?thesis
    using assms t by (simp add: uds_trigger_event_response_def Let_def)
qed

theorem event_response_frame_witness:
  "trace (uds_trigger_event_response kconfig_default (quiet_env weak_hooks) 3 (Some [1, 2]) 2 (io_0 kconfig_default))
   = [Isotp_send [0x86, 3, 1, 2]]"
  using event_response_frame [of kconfig_default "[1, 2]" 2 "quiet_env weak_hooks" 3 "io_0 kconfig_default"]
  by (simp add: io_0_def, simp add: kconfig_default_def)

end
