(* ===== verification/Uds_Service.thy ===== *)
theory Uds_Service
  imports Uds_Transport
begin

text \<open>
  The contract between the dispatcher and the services. A service gets a request buffer and the number of
  received bytes, its own state and the shared input/output state. What the dispatcher relies on, and every
  service provides: it reads no more than the received bytes, it only appends to the trace, it
  sends at most one frame and that frame answers the request, and it leaves the addressing
  mode and the size of the transmit buffer alone.
\<close>

section \<open>What an operation adds to the trace\<close>

definition new_events :: "io \<Rightarrow> io \<Rightarrow> trace" where
  "new_events i j = take (length (trace j) - length (trace i)) (trace j)"

definition grows :: "io \<Rightarrow> io \<Rightarrow> bool" where
  "grows i j \<longleftrightarrow> trace j = new_events i j @ trace i"

lemma new_events_eq: "trace j = evs @ trace i \<Longrightarrow> new_events i j = evs"
  by (simp add: new_events_def)

lemma growsI: "trace j = evs @ trace i \<Longrightarrow> grows i j"
  by (simp add: grows_def new_events_eq)

lemma grows_refl [simp, intro]: "grows i i"
  by (rule growsI [of _ "[]"]) simp

lemma grows_trans [trans]: "grows i j \<Longrightarrow> grows j k \<Longrightarrow> grows i k"
  by (rule growsI [of _ "new_events j k @ new_events i j"]) (simp add: grows_def)

lemma new_events_trans:
  "grows i j \<Longrightarrow> grows j k \<Longrightarrow> new_events i k = new_events j k @ new_events i j"
  by (rule new_events_eq) (simp add: grows_def)

lemma new_events_same [simp]: "new_events i i = []"
  by (simp add: new_events_def)

section \<open>Answers\<close>

text \<open>
  A positive answer starts with the service identifier plus 0x40. A negative one is 0x7F, the service
  identifier and a code, and after a functional request the code is ResponsePending.
\<close>

definition is_answer :: "u8 \<Rightarrow> uds_addressing \<Rightarrow> u8 list \<Rightarrow> bool" where
  "is_answer sid a f \<longleftrightarrow>
     (f \<noteq> [] \<and> hd f = sid + 0x40) \<or>
     (length f = 3 \<and> f ! 0 = 0x7F \<and> f ! 1 = sid \<and>
      (a = UDS_ADDR_FUNCTIONAL \<longrightarrow> f ! 2 = UDS_NRC_RESPONSE_PENDING))"

lemma frames_nrc_trace [simp]:
  "frames (nrc_trace sid nrc a) =
     (if a = UDS_ADDR_FUNCTIONAL \<and> nrc \<noteq> UDS_NRC_RESPONSE_PENDING then []
      else [[0x7F, sid, nrc]])"
  by (simp add: nrc_trace_def)

lemma is_answer_nrc [simp]:
  "a \<noteq> UDS_ADDR_FUNCTIONAL \<or> nrc = UDS_NRC_RESPONSE_PENDING \<Longrightarrow> is_answer sid a [0x7F, sid, nrc]"
  by (auto simp: is_answer_def)

lemma is_answer_pos [simp]: "is_answer sid a ((sid + 0x40) # f)"
  by (simp add: is_answer_def)

text \<open>The calls each service may make, frames apart.\<close>

fun timer_service :: "timer \<Rightarrow> u8" where
  "timer_service S3_timer = 0x10"
| "timer_service Lockout_timer = 0x27"
| "timer_service Reset_timer = 0x11"
| "timer_service Routine_nrc78_timer = 0x31"
| "timer_service Clear_nrc78_timer = 0x14"

fun work_service :: "work \<Rightarrow> u8" where
  "work_service Routine_work = 0x31"
| "work_service Clear_dtc_work = 0x14"

fun may_call :: "u8 \<Rightarrow> event \<Rightarrow> bool" where
  "may_call sid (K_timer_start t _ _) \<longleftrightarrow> sid = timer_service t"
| "may_call sid (K_timer_stop t) \<longleftrightarrow> sid = 0x10 \<and> t = S3_timer"
| "may_call sid (K_work_submit w) \<longleftrightarrow> sid = work_service w"
| "may_call sid (K_work_is_pending w) \<longleftrightarrow> sid = 0x14 \<and> w = Clear_dtc_work"
| "may_call sid (Device_is_ready d) \<longleftrightarrow> sid = 0x27"
| "may_call sid (Entropy_get_entropy _) \<longleftrightarrow> sid = 0x27"
| "may_call sid K_uptime_get_32 \<longleftrightarrow> sid = 0x27"
| "may_call sid (Nvs_write _ _ _) \<longleftrightarrow> sid = 0x27"
| "may_call sid (Nvs_read _ _ _) \<longleftrightarrow> sid = 0x19"
| "may_call sid App_get_nvs_context \<longleftrightarrow> sid = 0x19"
| "may_call sid (App_get_freeze_frame _ _ _) \<longleftrightarrow> sid = 0x19"
| "may_call sid (App_read_did _ _) \<longleftrightarrow> sid = 0x22"
| "may_call sid (App_verify_key_krypto _ _ _) \<longleftrightarrow> sid = 0x27"
| "may_call sid (App_write_did _ _) \<longleftrightarrow> sid = 0x2E"
| "may_call sid (App_io_control _ _ _) \<longleftrightarrow> sid = 0x2F"
| "may_call sid (App_routine_request_results _) \<longleftrightarrow> sid = 0x31"
| "may_call sid (App_flash_erase_target _ _) \<longleftrightarrow> sid = 0x34"
| "may_call sid (App_flash_write_block _ _) \<longleftrightarrow> sid = 0x36"
| "may_call sid _ \<longleftrightarrow> False"

fun is_send :: "event \<Rightarrow> bool" where
  "is_send (Isotp_send f) = True"
| "is_send _ = False"

text \<open>
  \<open>quiet sid i j\<close>: on the way from \<open>i\<close> to \<open>j\<close> service \<open>sid\<close> makes only calls it may make and
  sends nothing. \<open>served sid i j\<close>: it sends at most one frame besides, and that frame is an answer.
\<close>

definition quiet :: "u8 \<Rightarrow> io \<Rightarrow> io \<Rightarrow> bool" where
  "quiet sid i j \<longleftrightarrow>
     grows i j \<and>
     current_msg_addressing j = current_msg_addressing i \<and>
     length (uds_tx_buf j) = length (uds_tx_buf i) \<and>
     (mem_fault i \<longrightarrow> mem_fault j) \<and>
     (\<forall>ev \<in> set (new_events i j). may_call sid ev)"

definition served :: "u8 \<Rightarrow> io \<Rightarrow> io \<Rightarrow> bool" where
  "served sid i j \<longleftrightarrow>
     grows i j \<and>
     current_msg_addressing j = current_msg_addressing i \<and>
     length (uds_tx_buf j) = length (uds_tx_buf i) \<and>
     (mem_fault i \<longrightarrow> mem_fault j) \<and>
     (\<forall>ev \<in> set (new_events i j). is_send ev \<or> may_call sid ev) \<and>
     length (frames (new_events i j)) \<le> 1 \<and>
     (\<forall>f \<in> set (frames (new_events i j)). is_answer sid (current_msg_addressing i) f)"

lemma frames_Nil_iff: "frames tr = [] \<longleftrightarrow> (\<forall>ev \<in> set tr. \<not> is_send ev)"
  by (induction tr rule: frames.induct) simp_all

lemma may_call_not_send: "may_call sid ev \<Longrightarrow> \<not> is_send ev"
  by (cases ev) simp_all

lemma quiet_refl [simp]: "quiet sid i i"
  by (simp add: quiet_def)

lemma quiet_trans: "quiet sid i j \<Longrightarrow> quiet sid j k \<Longrightarrow> quiet sid i k"
  using grows_trans [of i j k] new_events_trans [of i j k] by (auto simp: quiet_def)

lemma quietI:
  assumes "trace j = evs @ trace i" "\<forall>ev \<in> set evs. may_call sid ev"
    "current_msg_addressing j = current_msg_addressing i"
    "length (uds_tx_buf j) = length (uds_tx_buf i)" "mem_fault i \<longrightarrow> mem_fault j"
  shows "quiet sid i j"
  using assms by (simp add: quiet_def new_events_eq growsI)

lemma quiet_frames: "quiet sid i j \<Longrightarrow> frames (new_events i j) = []"
  by (auto simp: quiet_def frames_Nil_iff dest: may_call_not_send)

lemma quiet_served_trans: "quiet sid i j \<Longrightarrow> served sid j k \<Longrightarrow> served sid i k"
  using grows_trans [of i j k] new_events_trans [of i j k] quiet_frames [of sid i j]
  by (auto simp: quiet_def served_def)

lemma served_quiet_trans: "served sid i j \<Longrightarrow> quiet sid j k \<Longrightarrow> served sid i k"
  using grows_trans [of i j k] new_events_trans [of i j k] quiet_frames [of sid j k]
  by (auto simp: quiet_def served_def)

lemma servedI:
  assumes "trace j = evs @ trace i" "\<forall>ev \<in> set evs. is_send ev \<or> may_call sid ev"
    "length (frames evs) \<le> 1"
    "\<And>f. f \<in> set (frames evs) \<Longrightarrow> is_answer sid (current_msg_addressing i) f"
    "current_msg_addressing j = current_msg_addressing i"
    "length (uds_tx_buf j) = length (uds_tx_buf i)" "mem_fault i \<longrightarrow> mem_fault j"
  shows "served sid i j"
  using assms by (simp add: served_def new_events_eq growsI)

subsection \<open>Composition\<close>

lemma quiet_prims:
  "may_call sid ev \<Longrightarrow> quiet sid j (emit ev j)"
  "quiet sid j (fault_if b j)"
  "quiet sid j (tx_put off bs j)"
  "may_call sid (Nvs_read fs k (length buf)) \<Longrightarrow>
     quiet sid j (snd (snd (nvs_read_into e fs k buf j)))"
     apply (rule quietI [of _ "[ev]"]; simp)
    apply (rule quietI [of _ "[]"]; simp)
   apply (rule quietI [of _ "[]"]; simp)
  apply (rule quietI [of _ "[Nvs_read fs k (length buf)]"]; simp)
  done

lemma quiet_intros [served_intros]:
  "quiet sid i j \<Longrightarrow> may_call sid ev \<Longrightarrow> quiet sid i (emit ev j)"
  "quiet sid i j \<Longrightarrow> quiet sid i (fault_if b j)"
  "quiet sid i j \<Longrightarrow> quiet sid i (tx_put off bs j)"
  "quiet sid i j \<Longrightarrow> may_call sid (Nvs_read fs k (length buf)) \<Longrightarrow>
     quiet sid i (snd (snd (nvs_read_into e fs k buf j)))"
  by (blast intro: quiet_trans quiet_prims)+

lemma served_quiet: "quiet sid i j \<Longrightarrow> served sid i j"
  using quiet_frames [of sid i j] by (simp add: quiet_def served_def)

lemma served_refl [simp]: "served sid i i"
  by (simp add: served_quiet)

lemma served_after [served_intros]:
  "served sid i j \<Longrightarrow> may_call sid ev \<Longrightarrow> served sid i (emit ev j)"
  "served sid i j \<Longrightarrow> served sid i (fault_if b j)"
  "served sid i j \<Longrightarrow> served sid i (tx_put off bs j)"
  by (blast intro: served_quiet_trans quiet_prims)+

lemma served_nrc [served_intros]:
  assumes "quiet sid i j" shows "served sid i (uds_send_nrc sid nrc j)"
proof (rule quiet_served_trans [OF assms])
  show "served sid j (uds_send_nrc sid nrc j)"
    by (rule servedI [of _ "nrc_trace sid nrc (current_msg_addressing j)"])
      (simp_all add: nrc_trace_def split: if_splits)
qed

lemma served_response [served_intros]:
  assumes "quiet sid i j" "0 < n" "d \<noteq> []" "d ! 0 = sid + 0x40"
  shows "served sid i (uds_send_response d n j)"
proof (rule quiet_served_trans [OF assms(1)])
  show "served sid j (uds_send_response d n j)"
    using assms(2-4)
    by (intro servedI [of _ "[Isotp_send (take n d)]"]) (simp_all add: is_answer_def hd_conv_nth)
qed

lemma served_send_tx [served_intros]:
  "quiet sid i j \<Longrightarrow> 0 < n \<Longrightarrow> uds_tx_buf j \<noteq> [] \<Longrightarrow> uds_tx_buf j ! 0 = sid + 0x40 \<Longrightarrow>
     served sid i (send_tx cb n j)"
  unfolding send_tx_def call_send_eq by (rule served_response)

section \<open>The contract of a service\<close>

text \<open>
  \<open>handle req len\<close> runs a request of \<open>len\<close> bytes in the buffer \<open>req\<close>. The first assumption is what
  the service promises about answers, the second that it does not look behind the received bytes.
\<close>

locale service =
  fixes handle :: "u8 list \<Rightarrow> nat \<Rightarrow> 's \<times> io \<Rightarrow> 's \<times> io"
    and sid :: u8
  assumes serves:
    "uds_tx_buf i \<noteq> [] \<Longrightarrow> req ! 0 = sid \<Longrightarrow> served sid i (snd (handle req len (s, i)))"
    and reads: "0 < len \<Longrightarrow> handle (take len req) len p = handle req len p"

text \<open>
  A service behind a gate: while it is not permitted, a request changes none of the service's state and reaches
  no application hook.
\<close>

fun is_hook :: "event \<Rightarrow> bool" where
  "is_hook (App_read_did _ _) = True"
| "is_hook (App_write_did _ _) = True"
| "is_hook (App_io_control _ _ _) = True"
| "is_hook (App_routine_start _) = True"
| "is_hook (App_routine_request_results _) = True"
| "is_hook (App_flash_erase_target _ _) = True"
| "is_hook (App_flash_write_block _ _) = True"
| "is_hook (App_get_freeze_frame _ _ _) = True"
| "is_hook (App_verify_key_krypto _ _ _) = True"
| "is_hook (App_get_periodic_did _) = True"
| "is_hook App_get_nvs_context = True"
| "is_hook (App_clear_persistent_dtcs _ _) = True"
| "is_hook (App_write_persistent_data _ _ _) = True"
| "is_hook _ = False"

definition no_hooks :: "io \<Rightarrow> io \<Rightarrow> bool" where
  "no_hooks i j \<longleftrightarrow> grows i j \<and> (\<forall>ev \<in> set (new_events i j). \<not> is_hook ev)"

lemma no_hooks_refl [simp]: "no_hooks i i"
  by (simp add: no_hooks_def)

lemma no_hooks_trans: "no_hooks i j \<Longrightarrow> no_hooks j k \<Longrightarrow> no_hooks i k"
  using grows_trans [of i j k] new_events_trans [of i j k] by (auto simp: no_hooks_def)

lemma no_hooks_nrc [simp]: "no_hooks i (uds_send_nrc sid nrc i)"
  using new_events_eq [of "uds_send_nrc sid nrc i" "nrc_trace sid nrc (current_msg_addressing i)" i]
    growsI [of "uds_send_nrc sid nrc i" "nrc_trace sid nrc (current_msg_addressing i)" i]
  by (simp add: no_hooks_def nrc_trace_def)

locale gated_service = service +
  fixes permitted :: bool
  assumes gate: "\<not> permitted \<Longrightarrow>
    fst (handle req len (s, i)) = s \<and> no_hooks i (snd (handle req len (s, i)))"
begin

lemma gate_pair: "\<not> permitted \<Longrightarrow> fst (handle req len p) = fst p \<and> no_hooks (snd p) (snd (handle req len p))"
  by (cases p) (simp add: gate)

end

text \<open>A service without state of its own.\<close>

definition stateless :: "(u8 list \<Rightarrow> nat \<Rightarrow> io \<Rightarrow> io) \<Rightarrow> u8 list \<Rightarrow> nat \<Rightarrow> unit \<times> io \<Rightarrow> unit \<times> io" where
  "stateless f req len p = (fst p, f req len (snd p))"

lemma stateless_sel [simp]:
  "fst (stateless f req len p) = fst p" "snd (stateless f req len p) = f req len (snd p)"
  by (simp_all add: stateless_def)

end
