(* ===== verification/Uds_Reset.thy ===== *)
theory Uds_Reset
  imports Uds_Service
begin

text \<open>
  Service 0x11, \<open>src/uds_reset.c\<close>: the reset request is answered first and the reboot follows from a
  timer.
\<close>

record reset_state =
  chosen_reset_type :: reboot_mode

definition reset_state_0 :: reset_state where
  "reset_state_0 = \<lparr>chosen_reset_type = SYS_REBOOT_COLD\<rparr>"

definition UDS_RESET_DELAY_MS :: nat where [simp]: "UDS_RESET_DELAY_MS = 50"

definition reset_timer_expiry_cb :: "reset_state \<Rightarrow> io \<Rightarrow> io" where
  "reset_timer_expiry_cb rs i = emit (Sys_reboot (chosen_reset_type rs)) i"

definition uds_reset_init :: "io \<Rightarrow> io" where
  "uds_reset_init i = emit (K_timer_init Reset_timer) i"

definition uds_reset_handle ::
    "send_cb \<Rightarrow> nrc_cb \<Rightarrow> u8 list \<Rightarrow> nat \<Rightarrow> reset_state \<times> io \<Rightarrow> reset_state \<times> io" where
  "uds_reset_handle send nrc req len = (\<lambda>(rs, i).
     (let sid = req ! 0 in
      if len < 2
      then (rs, call_nrc nrc sid UDS_NRC_INCORRECT_LENGTH_OR_INVALID_FORMAT i) else
      (let reset_type = req ! 1;
           finish = (\<lambda>rs.
             (let i = tx_put 0 [sid + 0x40] i;
                  i = tx_put 1 [reset_type] i;
                  i = send_tx send 2 i;
                  i = emit (K_timer_start Reset_timer UDS_RESET_DELAY_MS 0) i
              in (rs, i)))
       in if reset_type = 0x01 then finish (rs\<lparr>chosen_reset_type := SYS_REBOOT_COLD\<rparr>)
          else if reset_type = 0x03 then finish (rs\<lparr>chosen_reset_type := SYS_REBOOT_WARM\<rparr>)
          else (rs, call_nrc nrc sid UDS_NRC_SUB_FUNCTION_NOT_SUPPORTED i))))"

section \<open>Contract\<close>

interpretation rst: service "uds_reset_handle send nrc" "0x11" for send nrc
proof (unfold_locales, goal_cases)
  case 1 then show ?case by (simp add: uds_reset_handle_def Let_def served_intros)
next
  case (2 len req p) then show ?case
    by (cases p) (simp add: uds_reset_handle_def Let_def cong: if_cong)
qed

end
