(* ===== verification/Uds_Security.thy ===== *)
theory Uds_Security
  imports Uds_Service
begin

text \<open>
  Service 0x27, \<open>src/uds_security.c\<close>: seed requests, key validation, and the attempt counter with its
  lockout, both kept in NVS so that they survive a reset.
\<close>

section \<open>State\<close>

text \<open>
  The file's static variables. Of the \<open>nvs_fs\<close> structure only the two geometry fields the code
  computes are kept, as unbounded numbers.
\<close>

record security_state =
  security_status :: uds_security_status
  generated_seed :: "u8 list"
  failed_attempts_counter :: u8
  fs_sector_size :: nat
  fs_sector_count :: nat

definition NVS_DTC_COUNTER_ID :: u16 where [simp]: "NVS_DTC_COUNTER_ID = 1"
definition NVS_LOCKOUT_STATE_ID :: u16 where [simp]: "NVS_LOCKOUT_STATE_ID = 2"

text \<open>The static initialisers.\<close>

definition security_state_0 :: "kconfig \<Rightarrow> security_state" where
  "security_state_0 c =
     \<lparr>security_status = UDS_SEC_LOCKED,
      generated_seed = replicate (CONFIG_UDS_SEC_SEED_SIZE c) 0,
      failed_attempts_counter = 0, fs_sector_size = 0, fs_sector_count = 0\<rparr>"

section \<open>Operations\<close>

definition lockout_timer_expiry_cb :: "security_state \<times> io \<Rightarrow> security_state \<times> io" where
  "lockout_timer_expiry_cb = (\<lambda>(ss, i).
     (let ss = ss\<lparr>security_status := UDS_SEC_LOCKED, failed_attempts_counter := 0\<rparr>;
          i = emit (Nvs_write Security_fs NVS_DTC_COUNTER_ID [0]) i;
          i = emit (Nvs_write Security_fs NVS_LOCKOUT_STATE_ID [0]) i
      in (ss, i)))"

definition uds_security_init ::
    "kconfig \<Rightarrow> env \<Rightarrow> security_state \<times> io \<Rightarrow> security_state \<times> io" where
  "uds_security_init c e = (\<lambda>(ss, i).
     (let i = emit (K_timer_init Lockout_timer) i;
          ready = device_is_ready e (trace i) Storage_partition_device;
          i = emit (Device_is_ready Storage_partition_device) i
      in if \<not> ready then (ss, i) else
      (let (ret, info_size) = flash_get_page_info_by_offs e (trace i);
           i = emit Flash_get_page_info_by_offs i
       in if ret \<noteq> 0 then (ss, i) else
       (let i = fault_if (info_size = 0) i;
            ss = ss\<lparr>fs_sector_size := info_size,
                    fs_sector_count := STORAGE_PARTITION_SIZE e div info_size\<rparr>
        in if fs_sector_count ss = 0 then (ss, i) else
        (let mounted = nvs_mount e (trace i);
             i = emit Nvs_mount i
         in if mounted \<noteq> 0 then (ss, i) else
         (let (ret, stored_lockout, i) =
                nvs_read_into e Security_fs NVS_LOCKOUT_STATE_ID [0] i
          in if ret > 0 \<and> stored_lockout ! 0 = 1
             then (ss\<lparr>security_status := UDS_SEC_BRUTE_FORCE_LOCKOUT,
                      failed_attempts_counter :=
                        word_of_nat (CONFIG_UDS_SEC_MAX_FAILED_ATTEMPTS c)\<rparr>,
                   emit (K_timer_start Lockout_timer (CONFIG_UDS_SEC_LOCKOUT_TIME_MS c) 0) i)
             else
               (let (ret, counter, i) =
                      nvs_read_into e Security_fs NVS_DTC_COUNTER_ID
                        [failed_attempts_counter ss] i
                in (ss\<lparr>failed_attempts_counter := counter ! 0\<rparr>, i))))))))"

definition uds_security_get_status :: "security_state \<Rightarrow> uds_security_status" where
  [simp]: "uds_security_get_status ss = security_status ss"

definition uds_security_reset_lock :: "security_state \<Rightarrow> security_state" where
  "uds_security_reset_lock ss =
     (if security_status ss \<noteq> UDS_SEC_BRUTE_FORCE_LOCKOUT
      then ss\<lparr>security_status := UDS_SEC_LOCKED\<rparr> else ss)"

text \<open>
  The fallback seed: byte \<open>n\<close> is \<open>(uint8_t)(uptime >> (n * 8))\<close>. A shift by 32 or more is undefined
  in C.
\<close>

definition uptime_seed :: "nat \<Rightarrow> u32 \<Rightarrow> u8 list" where
  "uptime_seed n uptime = map (\<lambda>k. ucast (drop_bit (k * 8) uptime)) [0..<n]"

text \<open>The branch of seed requests 0x01 and 0x03.\<close>

definition uds_security_request_seed ::
    "kconfig \<Rightarrow> env \<Rightarrow> u8 \<Rightarrow> u8 \<Rightarrow> nat \<Rightarrow> send_cb \<Rightarrow> nrc_cb \<Rightarrow>
     security_state \<times> io \<Rightarrow> security_state \<times> io" where
  "uds_security_request_seed c e sid sub_function len send nrc = (\<lambda>(ss, i).
     (let n = CONFIG_UDS_SEC_SEED_SIZE c in
      if len \<noteq> 2
      then (ss, call_nrc nrc sid UDS_NRC_INCORRECT_LENGTH_OR_INVALID_FORMAT i) else
      (let (ss, i) =
         (if security_status ss = UDS_SEC_UNLOCKED
          then (ss\<lparr>generated_seed := replicate n 0\<rparr>, i)
          else
            (let ready = device_is_ready e (trace i) Entropy_dev;
                 i = emit (Device_is_ready Entropy_dev) i;
                 (seed, i) =
                   (if ready
                    then (buf_put 0 (take n (entropy_get_entropy e (trace i) n))
                            (generated_seed ss),
                          emit (Entropy_get_entropy n) i)
                    else (uptime_seed n (k_uptime_get_32 e (trace i)),
                          fault_if (n > 4) (emit K_uptime_get_32 i)))
             in (ss\<lparr>generated_seed := seed,
                    security_status := UDS_SEC_SEED_REQUESTED\<rparr>, i)));
           i = tx_put 0 [sid + 0x40] i;
           i = tx_put 1 [sub_function] i;
           i = tx_put 2 (take n (generated_seed ss)) i
       in (ss, send_tx send (2 + n) i))))"

text \<open>
  The branch of keys 0x02 and 0x04. \<open>local_key_buf\<close> has 16 bytes; the hook is told it has
  \<open>SECURITY_SEED_SIZE\<close>.
\<close>

definition uds_security_send_key ::
    "kconfig \<Rightarrow> env \<Rightarrow> u8 list \<Rightarrow> u8 \<Rightarrow> u8 \<Rightarrow> nat \<Rightarrow> send_cb \<Rightarrow> nrc_cb \<Rightarrow>
     security_state \<times> io \<Rightarrow> security_state \<times> io" where
  "uds_security_send_key c e req sid sub_function len send nrc = (\<lambda>(ss, i).
     (let n = CONFIG_UDS_SEC_SEED_SIZE c in
      if len \<noteq> 2 + n
      then (ss, call_nrc nrc sid UDS_NRC_INCORRECT_LENGTH_OR_INVALID_FORMAT i)
      else if security_status ss \<noteq> UDS_SEC_SEED_REQUESTED
      then (ss, call_nrc nrc sid UDS_NRC_REQUEST_SEQUENCE_ERROR i) else
      (let check_level = sub_function - 1;
           local_key_buf = uninit_buf e (trace i) 16;
           local_key_buf = (if n \<le> 16 then buf_put 0 (take n (drop 2 req)) local_key_buf
                            else local_key_buf);
           key = take n local_key_buf;
           access_granted =
             uds_app_verify_key_krypto (app e) (trace i) check_level (generated_seed ss) key;
           i = emit (App_verify_key_krypto check_level (generated_seed ss) key)
                 (fault_if (n > 16) i)
       in if access_granted = 0
          then
            (let ss = ss\<lparr>security_status := UDS_SEC_UNLOCKED, failed_attempts_counter := 0\<rparr>;
                 i = emit (Nvs_write Security_fs NVS_DTC_COUNTER_ID [0]) i;
                 i = tx_put 0 [sid + 0x40] i;
                 i = tx_put 1 [sub_function] i
             in (ss, send_tx send 2 i))
          else
            (let ss = ss\<lparr>failed_attempts_counter := failed_attempts_counter ss + 1\<rparr>;
                 i = emit (Nvs_write Security_fs NVS_DTC_COUNTER_ID
                             [failed_attempts_counter ss]) i
             in if unat (failed_attempts_counter ss) \<ge> CONFIG_UDS_SEC_MAX_FAILED_ATTEMPTS c
                then
                  (let ss = ss\<lparr>security_status := UDS_SEC_BRUTE_FORCE_LOCKOUT\<rparr>;
                       i = emit (Nvs_write Security_fs NVS_LOCKOUT_STATE_ID [1]) i;
                       i = emit (K_timer_start Lockout_timer
                                   (CONFIG_UDS_SEC_LOCKOUT_TIME_MS c) 0) i
                   in (ss, call_nrc nrc sid UDS_NRC_EXCEEDED_NUMBER_OF_ATTEMPTS i))
                else
                  (ss\<lparr>security_status := UDS_SEC_LOCKED\<rparr>,
                   call_nrc nrc sid UDS_NRC_INVALID_KEY i)))))"

definition uds_security_handle_request ::
    "kconfig \<Rightarrow> env \<Rightarrow> send_cb \<Rightarrow> nrc_cb \<Rightarrow> u8 list \<Rightarrow> nat \<Rightarrow>
     security_state \<times> io \<Rightarrow> security_state \<times> io" where
  "uds_security_handle_request c e send nrc req len = (\<lambda>(ss, i).
     (let sid = req ! 0 in
      if len < 2
      then (ss, call_nrc nrc sid UDS_NRC_INCORRECT_LENGTH_OR_INVALID_FORMAT i)
      else if security_status ss = UDS_SEC_BRUTE_FORCE_LOCKOUT
      then (ss, call_nrc nrc sid UDS_NRC_EXCEEDED_NUMBER_OF_ATTEMPTS i) else
      (let sub_function = req ! 1 in
       if sub_function = 0x01 \<or> sub_function = 0x03
       then uds_security_request_seed c e sid sub_function len send nrc (ss, i)
       else if sub_function = 0x02 \<or> sub_function = 0x04
       then uds_security_send_key c e req sid sub_function len send nrc (ss, i)
       else (ss, call_nrc nrc sid UDS_NRC_SUB_FUNCTION_NOT_SUPPORTED i))))"

section \<open>Contract\<close>

interpretation sec: service "uds_security_handle_request c e send nrc" "0x27" for c e send nrc
proof (unfold_locales, goal_cases)
  case 1 then show ?case
    by (simp add: uds_security_handle_request_def uds_security_request_seed_def
        uds_security_send_key_def Let_def served_intros)
next
  case (2 len req p)
  have "uds_security_send_key c e (take len req) sid f len send nrc p
      = uds_security_send_key c e req sid f len send nrc p" for sid f
    by (cases p) (simp add: uds_security_send_key_def Let_def drop_take cong: if_cong)
  with 2 show ?case
    by (cases p) (simp add: uds_security_handle_request_def Let_def cong: if_cong)
qed

section \<open>Specification\<close>

text \<open>
  What service 0x27 promises: a lock with an attempt counter. An input is a seed request, a key the hook
  accepts or rejects, or anything else.
\<close>

datatype sec_input = Sec_seed | Sec_key bool | Sec_rejected

fun sec_spec :: "nat \<Rightarrow> sec_input \<Rightarrow> uds_security_status \<times> nat \<Rightarrow> uds_security_status \<times> nat" where
  "sec_spec m inp (UDS_SEC_BRUTE_FORCE_LOCKOUT, k) = (UDS_SEC_BRUTE_FORCE_LOCKOUT, k)"
| "sec_spec m Sec_seed (UDS_SEC_UNLOCKED, k) = (UDS_SEC_UNLOCKED, k)"
| "sec_spec m Sec_seed (st, k) = (UDS_SEC_SEED_REQUESTED, k)"
| "sec_spec m (Sec_key valid) (UDS_SEC_SEED_REQUESTED, k) =
     (if valid then (UDS_SEC_UNLOCKED, 0)
      else if Suc k \<ge> m then (UDS_SEC_BRUTE_FORCE_LOCKOUT, Suc k)
      else (UDS_SEC_LOCKED, Suc k))"
| "sec_spec m (Sec_key valid) (st, k) = (st, k)"
| "sec_spec m Sec_rejected (st, k) = (st, k)"

definition sec_view :: "security_state \<Rightarrow> uds_security_status \<times> nat" where
  "sec_view ss = (security_status ss, unat (failed_attempts_counter ss))"

text \<open>The key the hook is shown, and its verdict.\<close>

definition received_key :: "kconfig \<Rightarrow> env \<Rightarrow> u8 list \<Rightarrow> io \<Rightarrow> u8 list" where
  "received_key c e req i =
     (let n = CONFIG_UDS_SEC_SEED_SIZE c; buf = uninit_buf e (trace i) 16
      in take n (if n \<le> 16 then buf_put 0 (take n (drop 2 req)) buf else buf))"

definition key_valid :: "kconfig \<Rightarrow> env \<Rightarrow> u8 list \<Rightarrow> security_state \<times> io \<Rightarrow> bool" where
  "key_valid c e req = (\<lambda>(ss, i).
     uds_app_verify_key_krypto (app e) (trace i) (req ! 1 - 1) (generated_seed ss)
       (received_key c e req i) = 0)"

definition sec_input_of :: "kconfig \<Rightarrow> env \<Rightarrow> u8 list \<Rightarrow> nat \<Rightarrow> security_state \<times> io \<Rightarrow> sec_input" where
  "sec_input_of c e req len p =
     (if len = 2 \<and> (req ! 1 = 1 \<or> req ! 1 = 3) then Sec_seed
      else if len = 2 + CONFIG_UDS_SEC_SEED_SIZE c \<and> (req ! 1 = 2 \<or> req ! 1 = 4)
      then Sec_key (key_valid c e req p) else Sec_rejected)"

lemma unat_counter_Suc: "unat (k :: u8) < 255 \<Longrightarrow> unat (k + 1) = Suc (unat k)"
  by (simp add: unat_word_ariths)

lemmas security_handle_defs =
  uds_security_handle_request_def uds_security_request_seed_def uds_security_send_key_def Let_def

lemma security_step_view:
  assumes "unat (failed_attempts_counter ss) < 255"
  shows "sec_view (fst (uds_security_handle_request c e send nrc req len (ss, i)))
    = sec_spec (CONFIG_UDS_SEC_MAX_FAILED_ATTEMPTS c) (sec_input_of c e req len (ss, i)) (sec_view ss)"
  using assms
  by (cases "security_status ss")
    (simp_all add: security_handle_defs sec_view_def sec_input_of_def key_valid_def
      received_key_def unat_counter_Suc)

text \<open>The counter stays below the limit until the lockout.\<close>

definition counter_ok :: "kconfig \<Rightarrow> security_state \<Rightarrow> bool" where
  "counter_ok c ss \<longleftrightarrow>
     (if security_status ss = UDS_SEC_BRUTE_FORCE_LOCKOUT
      then unat (failed_attempts_counter ss) = CONFIG_UDS_SEC_MAX_FAILED_ATTEMPTS c
      else unat (failed_attempts_counter ss) < CONFIG_UDS_SEC_MAX_FAILED_ATTEMPTS c)"

definition seed_ok :: "kconfig \<Rightarrow> security_state \<Rightarrow> bool" where
  "seed_ok c ss \<longleftrightarrow> length (generated_seed ss) = CONFIG_UDS_SEC_SEED_SIZE c"

lemma counter_ok_handle:
  assumes "counter_ok c ss" "kconfig_ok c"
  shows "counter_ok c (fst (uds_security_handle_request c e send nrc req len (ss, i)))"
proof -
  have b: "0 < CONFIG_UDS_SEC_MAX_FAILED_ATTEMPTS c" "CONFIG_UDS_SEC_MAX_FAILED_ATTEMPTS c \<le> 10"
    using assms(2) by (simp_all add: kconfig_ok_def)
  then have "unat (failed_attempts_counter ss) < 255"
    using assms(1) by (auto simp: counter_ok_def split: if_splits)
  from security_step_view [OF this, of c e send nrc req len i] b assms(1) show ?thesis
    by (cases "security_status ss"; cases "sec_input_of c e req len (ss, i)")
      (auto simp: sec_view_def counter_ok_def split: if_splits)
qed

text \<open>A series of requests and of its inputs, one at a time.\<close>

fun run_security ::
    "kconfig \<Rightarrow> env \<Rightarrow> (u8 list \<times> nat) list \<Rightarrow> security_state \<times> io \<Rightarrow> security_state \<times> io" where
  "run_security c e [] p = p"
| "run_security c e ((req, len) # rs) p =
     run_security c e rs (uds_security_handle_request c e Uds_send_response Uds_send_nrc req len p)"

fun run_inputs :: "kconfig \<Rightarrow> env \<Rightarrow> (u8 list \<times> nat) list \<Rightarrow> security_state \<times> io \<Rightarrow> sec_input list" where
  "run_inputs c e [] p = []"
| "run_inputs c e ((req, len) # rs) p =
     sec_input_of c e req len p #
     run_inputs c e rs (uds_security_handle_request c e Uds_send_response Uds_send_nrc req len p)"

lemma counter_small: "counter_ok c ss \<Longrightarrow> kconfig_ok c \<Longrightarrow> unat (failed_attempts_counter ss) < 255"
  by (auto simp: counter_ok_def kconfig_ok_def split: if_splits)

section \<open>Persistence\<close>

text \<open>The value last written under an identifier.\<close>

fun nvs_last :: "nvs_fs \<Rightarrow> u16 \<Rightarrow> trace \<Rightarrow> u8 list option" where
  "nvs_last fs k [] = None"
| "nvs_last fs k (Nvs_write fs' k' d # tr) = (if fs' = fs \<and> k' = k then Some d else nvs_last fs k tr)"
| "nvs_last fs k (_ # tr) = nvs_last fs k tr"

text \<open>
  The store that a module started again on the same flash reads from: the value a former life
  \<open>old\<close> wrote last, or nothing.
\<close>

definition nvs_after :: "trace \<Rightarrow> nvs_fs \<Rightarrow> u16 \<Rightarrow> nat \<Rightarrow> int \<times> u8 list" where
  "nvs_after old fs k n =
     (case nvs_last fs k old of
        Some d \<Rightarrow> (int (min n (length d)), take n d)
      | None \<Rightarrow> (- ENOENT, []))"

definition storage_usable :: "env \<Rightarrow> bool" where
  "storage_usable e \<longleftrightarrow>
     (\<forall>evs. device_is_ready e evs Storage_partition_device \<and> nvs_mount e evs = 0 \<and>
        fst (flash_get_page_info_by_offs e evs) = 0 \<and>
        0 < snd (flash_get_page_info_by_offs e evs) \<and>
        snd (flash_get_page_info_by_offs e evs) \<le> STORAGE_PARTITION_SIZE e)"

lemma storage_usable_count:
  "storage_usable e \<Longrightarrow>
     STORAGE_PARTITION_SIZE e div snd (flash_get_page_info_by_offs e evs) \<noteq> 0"
  by (simp add: storage_usable_def div_eq_0_iff not_less)

section \<open>Properties\<close>

text \<open>
  C5: any series of 0x27 requests drives the component exactly as the specification \<open>sec_spec\<close> of a lock with
  an attempt counter says, from any state whose counter is consistent with its status.
\<close>

theorem security_refines_spec:
  assumes "kconfig_ok c" "counter_ok c (fst p)"
  shows "sec_view (fst (run_security c e reqs p))
    = fold (sec_spec (CONFIG_UDS_SEC_MAX_FAILED_ATTEMPTS c)) (run_inputs c e reqs p)
        (sec_view (fst p))"
  using assms(2)
proof (induction reqs arbitrary: p)
  case (Cons r rs)
  obtain req len where r: "r = (req, len)" by fastforce
  obtain ss i where p: "p = (ss, i)" by fastforce
  show ?case
    using Cons counter_ok_handle [OF _ assms(1)] security_step_view [OF counter_small [OF _ assms(1)]]
    by (simp add: r p)
qed simp

theorem security_refines_spec_witness:
  "sec_view (fst (run_security kconfig_default (quiet_env weak_hooks)
     [([0x27, 1], 2), ([0x27, 2, 0, 0, 0, 0], 6), ([0x27, 1], 2)]
     (security_state_0 kconfig_default, io_0 kconfig_default))) = (UDS_SEC_SEED_REQUESTED, 1)"
proof -
  define reqs where "reqs = [([0x27, 1], 2), ([0x27, 2, 0, 0, 0, 0 :: u8], 6 :: nat), ([0x27, 1], 2)]"
  define p where "p = (security_state_0 kconfig_default, io_0 kconfig_default)"
  have e: "run_inputs kconfig_default (quiet_env weak_hooks) reqs p = [Sec_seed, Sec_key False, Sec_seed]"
    by (simp add: reqs_def p_def sec_input_of_def key_valid_def security_handle_defs kconfig_default_def
        security_state_0_def weak_hooks_def weak_uds_app_verify_key_krypto_def)
  have "sec_view (fst (run_security kconfig_default (quiet_env weak_hooks) reqs p))
      = fold (sec_spec (CONFIG_UDS_SEC_MAX_FAILED_ATTEMPTS kconfig_default))
          (run_inputs kconfig_default (quiet_env weak_hooks) reqs p) (sec_view (fst p))"
    by (rule security_refines_spec, rule kconfig_default_ok)
      (simp add: p_def counter_ok_def security_state_0_def kconfig_default_def)
  also have "\<dots> = (UDS_SEC_SEED_REQUESTED, 1)"
    unfolding e by (simp add: p_def sec_view_def security_state_0_def kconfig_default_def)
  finally show ?thesis by (simp only: reqs_def p_def)
qed

text \<open>
  C39: Kconfig allows seeds of up to 32 bytes, but the key of the tester is kept in 16: for a longer seed the hook is made to read
  behind them, and the outcome does not depend on the key that was received.
\<close>

theorem long_seed_reads_outside:
  assumes "16 < CONFIG_UDS_SEC_SEED_SIZE c" "security_status ss = UDS_SEC_SEED_REQUESTED"
    "len = 2 + CONFIG_UDS_SEC_SEED_SIZE c" "req ! 1 = 0x02" "take 2 req' = take 2 req"
  shows "mem_fault (snd (uds_security_handle_request c e send nrc req len (ss, i))) \<and>
    uds_security_handle_request c e send nrc req' len (ss, i) = uds_security_handle_request c e send nrc req len (ss, i)"
  using assms(1-4) take_eq_nth [OF assms(5), of 0] take_eq_nth [OF assms(5), of 1]
  by (simp add: uds_security_handle_request_def uds_security_send_key_def Let_def)

theorem long_seed_reads_outside_witness:
  "mem_fault (snd (uds_security_handle_request (kconfig_default\<lparr>CONFIG_UDS_SEC_SEED_SIZE := 17\<rparr>) (quiet_env weak_hooks)
     Uds_send_response Uds_send_nrc (0x27 # 2 # replicate 17 0) 19
     ((security_state_0 kconfig_default)\<lparr>security_status := UDS_SEC_SEED_REQUESTED\<rparr>, io_0 kconfig_default)))"
  using long_seed_reads_outside [of "kconfig_default\<lparr>CONFIG_UDS_SEC_SEED_SIZE := 17\<rparr>"
    "(security_state_0 kconfig_default)\<lparr>security_status := UDS_SEC_SEED_REQUESTED\<rparr>" 19 "0x27 # 2 # replicate 17 0"
    "0x27 # 2 # replicate 17 0" "quiet_env weak_hooks" Uds_send_response Uds_send_nrc "io_0 kconfig_default"]
  by (simp del: One_nat_def)

end
