(* ===== verification/Uds_Session.thy ===== *)
theory Uds_Session
  imports Uds_Security
begin

text \<open>
  Service 0x10, \<open>src/uds_session.c\<close>: the diagnostic session and the S3 timer that ends it when the tester
  goes quiet. The expiry callback also locks the security component.
\<close>

record session_state =
  current_session :: uds_session_type

definition session_state_0 :: session_state where
  "session_state_0 = \<lparr>current_session = UDS_SESSION_DEFAULT\<rparr>"

definition s3_timer_expiry_cb ::
    "session_state \<times> security_state \<Rightarrow> session_state \<times> security_state" where
  "s3_timer_expiry_cb = (\<lambda>(ses, ss).
     if current_session ses \<noteq> UDS_SESSION_DEFAULT
     then (ses\<lparr>current_session := UDS_SESSION_DEFAULT\<rparr>, uds_security_reset_lock ss)
     else (ses, ss))"

definition uds_session_init :: "session_state \<times> io \<Rightarrow> session_state \<times> io" where
  "uds_session_init = (\<lambda>(ses, i).
     (let i = emit (K_timer_init S3_timer) i
      in (ses\<lparr>current_session := UDS_SESSION_DEFAULT\<rparr>, i)))"

definition uds_session_get :: "session_state \<Rightarrow> uds_session_type" where
  [simp]: "uds_session_get ses = current_session ses"

definition uds_session_refresh_timer :: "kconfig \<Rightarrow> session_state \<Rightarrow> io \<Rightarrow> io" where
  "uds_session_refresh_timer c ses i =
     (if current_session ses \<noteq> UDS_SESSION_DEFAULT
      then emit (K_timer_start S3_timer (CONFIG_UDS_S3_TIMEOUT_MS c) 0) i
      else emit (K_timer_stop S3_timer) i)"

definition uds_session_set ::
    "kconfig \<Rightarrow> uds_session_type \<Rightarrow> session_state \<times> io \<Rightarrow> session_state \<times> io" where
  "uds_session_set c new_session = (\<lambda>(ses, i).
     (let ses = ses\<lparr>current_session := new_session\<rparr>
      in (ses, uds_session_refresh_timer c ses i)))"

end
