(* ===== verification/Uds_Routine.thy ===== *)
theory Uds_Routine
  imports Uds_Session
begin

text \<open>
  Service 0x31, \<open>src/uds_routine.c\<close>: a routine runs in the system work queue while a periodic
  timer sends ResponsePending frames. The worker is cut at the call of the application hook, which
  takes long and during which the timer fires and further requests arrive.
\<close>

record routine_state =
  erase_routine_status :: routine_status
  routine_exit_info :: u8
  active_routine_id :: u16
  local_routine_tx_buf :: "u8 list"
  stored_routine_sid :: u8
  stored_routine_send_cb :: "send_cb option"
  stored_routine_nrc_cb :: "nrc_cb option"

definition routine_state_0 :: routine_state where
  "routine_state_0 =
     \<lparr>erase_routine_status = ROUTINE_IDLE, routine_exit_info = 0, active_routine_id = 0,
      local_routine_tx_buf = [0, 0, 0, 0, 0], stored_routine_sid = 0x31,
      stored_routine_send_cb = None, stored_routine_nrc_cb = None\<rparr>"

definition UDS_ROUTINE_NRC78_PERIOD_MS :: nat where [simp]: "UDS_ROUTINE_NRC78_PERIOD_MS = 20"

definition routine_nrc78_timer_cb :: "routine_state \<Rightarrow> io \<Rightarrow> io" where
  "routine_nrc78_timer_cb rs i =
     (case stored_routine_nrc_cb rs of
        Some nrc \<Rightarrow> call_nrc nrc (stored_routine_sid rs) UDS_NRC_RESPONSE_PENDING i
      | None \<Rightarrow> i)"

text \<open>The worker up to the return of the hook, and the rest of it.\<close>

definition routine_worker_call :: "env \<Rightarrow> routine_state \<times> io \<Rightarrow> int \<times> u8 \<times> io" where
  "routine_worker_call e = (\<lambda>(rs, i).
     (let (ret, app_info) =
            uds_app_routine_start (app e) (trace i) (active_routine_id rs) 0
      in (ret, app_info, emit (App_routine_start (active_routine_id rs)) i)))"

definition routine_worker_finish ::
    "int \<Rightarrow> u8 \<Rightarrow> routine_state \<times> io \<Rightarrow> routine_state \<times> io" where
  "routine_worker_finish ret app_info = (\<lambda>(rs, i).
     (let rs = (if ret = 0
                then rs\<lparr>erase_routine_status := ROUTINE_COMPLETED, routine_exit_info := app_info\<rparr>
                else rs\<lparr>erase_routine_status := ROUTINE_FAILED, routine_exit_info := 0x0F\<rparr>);
          i = emit (K_timer_stop Routine_nrc78_timer) i
      in case stored_routine_send_cb rs of
           Some send \<Rightarrow>
             (let buf = [0x71, 0x01, ucast (drop_bit 8 (active_routine_id rs)),
                         ucast (active_routine_id rs AND 0xFF),
                         if erase_routine_status rs = ROUTINE_COMPLETED then 0x00 else 0x02]
              in (rs\<lparr>local_routine_tx_buf := buf\<rparr>, call_send send buf 5 i))
         | None \<Rightarrow> (rs, i)))"

definition routine_worker_handler :: "env \<Rightarrow> routine_state \<times> io \<Rightarrow> routine_state \<times> io" where
  "routine_worker_handler e = (\<lambda>(rs, i).
     (let (ret, app_info, i) = routine_worker_call e (rs, i)
      in routine_worker_finish ret app_info (rs, i)))"

definition uds_routine_init :: "io \<Rightarrow> io" where
  "uds_routine_init i = emit (K_timer_init Routine_nrc78_timer) (emit (K_work_init Routine_work) i)"

definition uds_routine_handle_control ::
    "env \<Rightarrow> session_state \<Rightarrow> send_cb \<Rightarrow> nrc_cb \<Rightarrow> u8 list \<Rightarrow> nat \<Rightarrow>
     routine_state \<times> io \<Rightarrow> routine_state \<times> io" where
  "uds_routine_handle_control e ses send nrc req len = (\<lambda>(rs, i).
     (if len = 0 then (rs, i) else
      (let sid = req ! 0 in
       if uds_session_get ses = UDS_SESSION_DEFAULT
       then (rs, call_nrc nrc sid UDS_NRC_SUB_FUNCTION_NOT_SUPPORTED_IN_ACTIVE_SESS i)
       else if len < 4
       then (rs, call_nrc nrc sid UDS_NRC_INCORRECT_LENGTH_OR_INVALID_FORMAT i) else
       (let sub_function = req ! 1;
            routine_id = be16 (req ! 2) (req ! 3)
        in if sub_function = 0x01 then
             (if erase_routine_status rs = ROUTINE_RUNNING
              then (rs, call_nrc nrc sid UDS_NRC_CONDITIONS_NOT_CORRECT i)
              else
                (rs\<lparr>active_routine_id := routine_id, erase_routine_status := ROUTINE_RUNNING,
                    stored_routine_send_cb := Some send, stored_routine_nrc_cb := Some nrc,
                    stored_routine_sid := sid\<rparr>,
                 emit (K_work_submit Routine_work)
                   (emit (K_timer_start Routine_nrc78_timer 0 UDS_ROUTINE_NRC78_PERIOD_MS) i)))
           else if sub_function = 0x03 then
             (let (ret, app_status, app_exit) =
                    uds_app_routine_request_results (app e) (trace i) routine_id 0 0;
                  i = emit (App_routine_request_results routine_id) i
              in if ret \<noteq> 0 then (rs, call_nrc nrc sid UDS_NRC_REQUEST_OUT_OF_RANGE i)
                 else
                   (rs, call_send send
                          [sid + 0x40, sub_function, req ! 2, req ! 3, app_status, app_exit] 6 i))
           else (rs, call_nrc nrc sid UDS_NRC_SUB_FUNCTION_NOT_SUPPORTED i)))))"

section \<open>Contract\<close>

interpretation rou: service "uds_routine_handle_control e ses send nrc" "0x31" for e ses send nrc
proof (unfold_locales, goal_cases)
  case 1 then show ?case
    by (simp add: uds_routine_handle_control_def Let_def served_intros split: prod.splits)
next
  case (2 len req p) then show ?case
    by (cases p) (simp add: uds_routine_handle_control_def Let_def cong: if_cong)
qed

section \<open>Properties\<close>

definition routine_ok_hooks :: app_hooks where
  "routine_ok_hooks = weak_hooks\<lparr>uds_app_routine_start := \<lambda>evs d info. (0, 7)\<rparr>"

text \<open>
  C32: a start request that is accepted sends nothing itself, marks the routine as running, arms the
  ResponsePending timer and submits the work item; when the worker has run, the status and the exit
  information are those of the application, the timer is stopped, and one result frame carries the
  identifier of the request.
\<close>

theorem routine_lifecycle:
  assumes "current_session ses \<noteq> UDS_SESSION_DEFAULT" "erase_routine_status rs \<noteq> ROUTINE_RUNNING"
    "length req = 4" "req ! 0 = 0x31" "req ! 1 = 0x01"
    "uds_routine_handle_control e ses send nrc req 4 (rs, i) = (rs1, i1)"
    "routine_worker_handler e (rs1, i1) = (rs2, i2)"
    "uds_app_routine_start (app e) (trace i1) (be16 (req ! 2) (req ! 3)) 0 = (ret, info)"
  shows "erase_routine_status rs1 = ROUTINE_RUNNING \<and> frames (trace i1) = frames (trace i) \<and>
    timer_mode Routine_nrc78_timer (trace i1) = Some 20 \<and> work_busy Routine_work (trace i1) \<and>
    erase_routine_status rs2 = (if ret = 0 then ROUTINE_COMPLETED else ROUTINE_FAILED) \<and>
    routine_exit_info rs2 = (if ret = 0 then info else 0x0F) \<and>
    frames (trace i2) = [0x71, 0x01, req ! 2, req ! 3, if ret = 0 then 0 else 2] # frames (trace i) \<and>
    timer_mode Routine_nrc78_timer (trace i2) = None"
proof -
  have i1: "rs1 = rs\<lparr>active_routine_id := be16 (req ! 2) (req ! 3), erase_routine_status := ROUTINE_RUNNING,
      stored_routine_send_cb := Some send, stored_routine_nrc_cb := Some nrc, stored_routine_sid := 0x31\<rparr>"
    "i1 = emit (K_work_submit Routine_work) (emit (K_timer_start Routine_nrc78_timer 0 20) i)"
    using assms(1-6) by (simp_all add: uds_routine_handle_control_def Let_def)
  show ?thesis
    using assms(7,8) by (cases "ret = 0") (auto simp: i1 routine_worker_handler_def routine_worker_call_def
        routine_worker_finish_def Let_def)
qed

theorem routine_lifecycle_witness:
  "frames (trace (snd (routine_worker_handler (quiet_env routine_ok_hooks)
     (uds_routine_handle_control (quiet_env routine_ok_hooks) \<lparr>current_session = UDS_SESSION_EXTENDED\<rparr>
        Uds_send_response Uds_send_nrc [0x31, 1, 0xFF, 2] 4 (routine_state_0, io_0 kconfig_default)))))
   = [[0x71, 1, 0xFF, 2, 0]]"
proof -
  define ses where "ses = \<lparr>current_session = UDS_SESSION_EXTENDED\<rparr>"
  define h where "h = quiet_env routine_ok_hooks"
  define p where "p = uds_routine_handle_control h ses Uds_send_response Uds_send_nrc [0x31, 1, 0xFF, 2] 4
    (routine_state_0, io_0 kconfig_default)"
  have "erase_routine_status routine_state_0 \<noteq> ROUTINE_RUNNING" by (simp add: routine_state_0_def)
  then show ?thesis
    using routine_lifecycle [of ses routine_state_0 "[0x31, 1, 0xFF, 2]" h Uds_send_response Uds_send_nrc
      "io_0 kconfig_default" "fst p" "snd p" "fst (routine_worker_handler h p)" "snd (routine_worker_handler h p)" 0 7]
    by (simp add: p_def ses_def h_def routine_ok_hooks_def io_0_def)
qed

end
