(* ===== verification/Uds_Clear_Dtc.thy ===== *)
theory Uds_Clear_Dtc
  imports Uds_Service
begin

text \<open>
  Service 0x14, \<open>src/uds_clear_dtc.c\<close>: clearing runs in the system work queue while a re-armed
  one-shot timer sends ResponsePending frames. The worker is cut where it can be overtaken: at
  the application hook and at its sleep.
\<close>

record clear_state =
  target_dtc_group :: u32
  stored_sid :: u8
  worker_done :: bool
  stored_send_cb :: "send_cb option"
  stored_nrc_cb :: "nrc_cb option"

definition clear_state_0 :: clear_state where
  "clear_state_0 =
     \<lparr>target_dtc_group = 0, stored_sid = 0x14, worker_done = False,
      stored_send_cb = None, stored_nrc_cb = None\<rparr>"

definition UDS_NRC78_PERIOD_MS :: nat where [simp]: "UDS_NRC78_PERIOD_MS = 20"

definition nrc78_timer_expiry_cb :: "clear_state \<Rightarrow> io \<Rightarrow> io" where
  "nrc78_timer_expiry_cb cs i =
     (if worker_done cs then i else
      (let i = (case stored_nrc_cb cs of
                  Some nrc \<Rightarrow> call_nrc nrc (stored_sid cs) UDS_NRC_RESPONSE_PENDING i
                | None \<Rightarrow> i)
       in if \<not> worker_done cs
          then emit (K_timer_start Clear_nrc78_timer UDS_NRC78_PERIOD_MS 0) i else i))"

text \<open>The worker up to the return of the hook, up to its sleep, and after it.\<close>

definition clear_dtc_worker_call :: "env \<Rightarrow> clear_state \<times> io \<Rightarrow> io" where
  "clear_dtc_worker_call e = (\<lambda>(cs, i).
     (let fs = uds_app_get_nvs_context (app e) (trace i);
          i = emit App_get_nvs_context i
      in case fs of
           Some f \<Rightarrow> emit (App_clear_persistent_dtcs f (target_dtc_group cs)) i
         | None \<Rightarrow> i))"

definition clear_dtc_worker_done :: "clear_state \<times> io \<Rightarrow> clear_state \<times> io" where
  "clear_dtc_worker_done = (\<lambda>(cs, i).
     (cs\<lparr>worker_done := True\<rparr>, emit (K_msleep 10) (emit (K_timer_stop Clear_nrc78_timer) i)))"

definition clear_dtc_worker_confirm :: "clear_state \<times> io \<Rightarrow> io" where
  "clear_dtc_worker_confirm = (\<lambda>(cs, i).
     (let local_tx_buf = [0x54] in
      case stored_send_cb cs of
        Some send \<Rightarrow> call_send send local_tx_buf 1 i
      | None \<Rightarrow> i))"

definition clear_dtc_worker_handler :: "env \<Rightarrow> clear_state \<times> io \<Rightarrow> clear_state \<times> io" where
  "clear_dtc_worker_handler e = (\<lambda>(cs, i).
     (let i = clear_dtc_worker_call e (cs, i);
          (cs, i) = clear_dtc_worker_done (cs, i)
      in (cs, clear_dtc_worker_confirm (cs, i))))"

definition uds_clear_dtc_init :: "io \<Rightarrow> io" where
  "uds_clear_dtc_init i =
     emit (K_timer_init Clear_nrc78_timer) (emit (K_work_init Clear_dtc_work) i)"

definition uds_clear_dtc_handle ::
    "env \<Rightarrow> send_cb \<Rightarrow> nrc_cb \<Rightarrow> u8 list \<Rightarrow> nat \<Rightarrow> clear_state \<times> io \<Rightarrow> clear_state \<times> io" where
  "uds_clear_dtc_handle e send nrc req len = (\<lambda>(cs, i).
     (let sid = req ! 0 in
      if len \<noteq> 4
      then (cs, call_nrc nrc sid UDS_NRC_INCORRECT_LENGTH_OR_INVALID_FORMAT i) else
      (let pending = k_work_is_pending e (trace i) Clear_dtc_work;
           i = emit (K_work_is_pending Clear_dtc_work) i
       in if pending then (cs, call_nrc nrc sid UDS_NRC_CONDITIONS_NOT_CORRECT i)
          else
            (cs\<lparr>target_dtc_group := be24 (req ! 1) (req ! 2) (req ! 3),
                stored_send_cb := Some send, stored_nrc_cb := Some nrc,
                stored_sid := sid, worker_done := False\<rparr>,
             emit (K_work_submit Clear_dtc_work)
               (emit (K_timer_start Clear_nrc78_timer UDS_NRC78_PERIOD_MS 0) i)))))"

section \<open>Contract\<close>

interpretation clr: service "uds_clear_dtc_handle e send nrc" "0x14" for e send nrc
proof (unfold_locales, goal_cases)
  case 1 then show ?case by (simp add: uds_clear_dtc_handle_def Let_def served_intros)
next
  case (2 len req p) then show ?case
    by (cases p) (simp add: uds_clear_dtc_handle_def Let_def cong: if_cong)
qed

section \<open>Properties\<close>

text \<open>
  C33: an accepted clear request arms the ResponsePending timer and sends nothing; its worker asks the application
  to clear the group of the request, stops the timer and confirms with 0x54, whatever the
  application returned.
\<close>

theorem clear_lifecycle:
  assumes "length req = 4" "req ! 0 = 0x14" "\<not> k_work_is_pending e (trace i) Clear_dtc_work"
    "uds_app_get_nvs_context (app e) = (\<lambda>evs. Some f)"
    "uds_clear_dtc_handle e send nrc req 4 (cs, i) = (cs1, i1)"
    "clear_dtc_worker_handler e (cs1, i1) = (cs2, i2)"
  shows "frames (trace i1) = frames (trace i) \<and> timer_mode Clear_nrc78_timer (trace i1) = Some 0 \<and>
    \<not> worker_done cs1 \<and> worker_done cs2 \<and> timer_mode Clear_nrc78_timer (trace i2) = None \<and>
    frames (trace i2) = [0x54] # frames (trace i) \<and>
    App_clear_persistent_dtcs f (be24 (req ! 1) (req ! 2) (req ! 3)) \<in> set (trace i2)"
  using assms by (auto simp: uds_clear_dtc_handle_def clear_dtc_worker_handler_def clear_dtc_worker_call_def
      clear_dtc_worker_done_def clear_dtc_worker_confirm_def Let_def)

theorem clear_lifecycle_witness:
  "frames (trace (snd (clear_dtc_worker_handler (quiet_env nvs_hooks)
     (uds_clear_dtc_handle (quiet_env nvs_hooks) Uds_send_response Uds_send_nrc [0x14, 0xFF, 0xFF, 0xFF] 4
        (clear_state_0, io_0 kconfig_default))))) = [[0x54]]"
proof -
  define h where "h = quiet_env nvs_hooks"
  define p where "p = uds_clear_dtc_handle h Uds_send_response Uds_send_nrc [0x14, 0xFF, 0xFF, 0xFF] 4
    (clear_state_0, io_0 kconfig_default)"
  show ?thesis
    using clear_lifecycle [of "[0x14, 0xFF, 0xFF, 0xFF]" h "io_0 kconfig_default" "App_fs 0" Uds_send_response
      Uds_send_nrc clear_state_0 "fst p" "snd p" "fst (clear_dtc_worker_handler h p)" "snd (clear_dtc_worker_handler h p)"]
    by (simp add: p_def h_def nvs_hooks_def io_0_def)
qed

end
