(* ===== verification/Uds_Read_Dtc.thy ===== *)
theory Uds_Read_Dtc
  imports Uds_Service
begin

text \<open>
  Service 0x19, \<open>src/uds_read_dtc.c\<close>: the stored trouble codes that match a status mask, and
  freeze frames from the application. The service keeps no state of its own.
\<close>

definition NVS_DTC_START_ID :: u16 where [simp]: "NVS_DTC_START_ID = 0x0100"
definition NVS_DTC_MAX_ENTRIES :: nat where [simp]: "NVS_DTC_MAX_ENTRIES = 16"
definition DTC_STATUS_AVAILABILITY_MASK :: u8 where [simp]: "DTC_STATUS_AVAILABILITY_MASK = 0x09"

text \<open>
  The loop over the NVS entries. It carries the bytes of \<open>temp_dtc\<close>, which is not reset between
  the rounds, and \<open>tx_idx\<close>.
\<close>

definition dtc_matches :: "u8 \<Rightarrow> uds_dtc \<Rightarrow> bool" where
  "dtc_matches client_mask d \<longleftrightarrow> status d \<noteq> 0 \<and> status d AND client_mask \<noteq> 0"

fun report_dtcs ::
    "env \<Rightarrow> nvs_fs \<Rightarrow> u8 \<Rightarrow> nat list \<Rightarrow> u8 list \<Rightarrow> nat \<Rightarrow> io \<Rightarrow> nat \<times> io" where
  "report_dtcs e fs client_mask [] temp_dtc tx_idx i = (tx_idx, i)"
| "report_dtcs e fs client_mask (k # ks) temp_dtc tx_idx i =
     (let (ret, temp_dtc, i) =
            nvs_read_into e fs (NVS_DTC_START_ID + word_of_nat k) temp_dtc i;
          d = uds_dtc_of_bytes temp_dtc
      in if ret = 4 \<and> dtc_matches client_mask d
         then
           (let i = tx_put tx_idx [code d ! 0] i;
                i = tx_put (tx_idx + 1) [code d ! 1] i;
                i = tx_put (tx_idx + 2) [code d ! 2] i;
                i = tx_put (tx_idx + 3) [status d] i
            in report_dtcs e fs client_mask ks temp_dtc (tx_idx + 4) i)
         else report_dtcs e fs client_mask ks temp_dtc tx_idx i)"

definition uds_read_dtc_handle ::
    "kconfig \<Rightarrow> env \<Rightarrow> send_cb \<Rightarrow> nrc_cb \<Rightarrow> u8 list \<Rightarrow> nat \<Rightarrow> io \<Rightarrow> io" where
  "uds_read_dtc_handle c e send nrc req len i =
     (let sid = req ! 0 in
      if len < 2
      then call_nrc nrc sid UDS_NRC_INCORRECT_LENGTH_OR_INVALID_FORMAT i else
      (let sub_function = req ! 1;
           ctx = uds_app_get_nvs_context (app e) (trace i);
           i = emit App_get_nvs_context i
       in case ctx of
            None \<Rightarrow> call_nrc nrc sid UDS_NRC_CONDITIONS_NOT_CORRECT i
          | Some fs \<Rightarrow>
            if sub_function = 0x02 then
              (if len < 3
               then call_nrc nrc sid UDS_NRC_INCORRECT_LENGTH_OR_INVALID_FORMAT i else
               (let client_mask = req ! 2;
                    i = tx_put 0 [sid + 0x40] i;
                    i = tx_put 1 [sub_function] i;
                    i = tx_put 2 [DTC_STATUS_AVAILABILITY_MASK] i;
                    (tx_idx, i) =
                      report_dtcs e fs client_mask [0..<NVS_DTC_MAX_ENTRIES]
                        (uninit_buf e (trace i) 4) 3 i
                in send_tx send tx_idx i))
            else if sub_function = 0x04 then
              (if len < 6
               then call_nrc nrc sid UDS_NRC_INCORRECT_LENGTH_OR_INVALID_FORMAT i else
               (let req_dtc = be24 (req ! 2) (req ! 3) (req ! 4);
                    record_num = req ! 5;
                    i = tx_put 0 [sid + 0x40] i;
                    i = tx_put 1 [sub_function] i;
                    i = tx_put 2 [req ! 2] i;
                    i = tx_put 3 [req ! 3] i;
                    i = tx_put 4 [req ! 4] i;
                    max_len = CONFIG_UDS_BUFF_SIZE c - 5;
                    (ret, data, out_len) =
                      uds_app_get_freeze_frame (app e) (trace i) req_dtc record_num 0 max_len;
                    i = tx_put 5 data (emit (App_get_freeze_frame req_dtc record_num max_len) i)
                in if ret = 0 then send_tx send (5 + out_len) i
                   else call_nrc nrc sid UDS_NRC_REQUEST_OUT_OF_RANGE i))
            else call_nrc nrc sid UDS_NRC_SUB_FUNCTION_NOT_SUPPORTED i))"

section \<open>Contract\<close>

lemma quiet_report_dtcs [served_intros]:
  "quiet 0x19 i j \<Longrightarrow> quiet 0x19 i (snd (report_dtcs e fs m ks temp n j))"
  by (induction ks arbitrary: temp n j)
    (simp_all add: Let_def case_prod_beta served_intros)

lemma report_dtcs_before:
  "n \<le> k \<Longrightarrow> take n (uds_tx_buf (snd (report_dtcs e fs m ks temp k i))) = take n (uds_tx_buf i)"
  by (induction ks arbitrary: temp k i)
    (simp_all add: Let_def case_prod_beta)

lemma report_dtcs_first:
  "0 < k \<Longrightarrow> uds_tx_buf (snd (report_dtcs e fs m ks temp k i)) ! 0 = uds_tx_buf i ! 0"
  using take_eq_nth [OF report_dtcs_before [of 1 k e fs m ks temp i]] by simp

lemma report_dtcs_index: "k \<le> fst (report_dtcs e fs m ks temp k i)"
  by (induction ks arbitrary: temp k i)
    (auto simp: Let_def case_prod_beta intro: add_leD1 [where k = 4])

lemma report_dtcs_length [simp]:
  "length (uds_tx_buf (snd (report_dtcs e fs m ks temp k i))) = length (uds_tx_buf i)"
  by (induction ks arbitrary: temp k i)
    (simp_all add: Let_def case_prod_beta)

lemma report_dtcs_nonempty:
  "uds_tx_buf (snd (report_dtcs e fs m ks temp k i)) = [] \<longleftrightarrow> uds_tx_buf i = []"
  by (metis length_0_conv report_dtcs_length)

interpretation rdt: service "stateless (uds_read_dtc_handle c e send nrc)" "0x19" for c e send nrc
proof (unfold_locales, goal_cases)
  case 1 then show ?case
    by (simp add: uds_read_dtc_handle_def Let_def served_intros case_prod_beta report_dtcs_first
        report_dtcs_nonempty less_le_trans [OF _ report_dtcs_index] del: upt_Suc split: option.split)
next
  case (2 len req p) then show ?case
    by (simp add: stateless_def uds_read_dtc_handle_def Let_def cong: if_cong option.case_cong)
qed

section \<open>The report as a filter\<close>

text \<open>
  The trouble codes of a store: entry \<open>k\<close> is what a read of identifier \<open>0x0100 + k\<close> yields. An entry is
  reported when the read gives four bytes and its status byte is set and shares a bit with the mask.
\<close>

definition reported :: "u8 \<Rightarrow> int \<times> u8 list \<Rightarrow> bool" where
  "reported cm = (\<lambda>(ret, bs). ret = 4 \<and> bs ! 3 \<noteq> 0 \<and> bs ! 3 AND cm \<noteq> 0)"

lemma reported_iff: "reported cm p \<longleftrightarrow> fst p = 4 \<and> dtc_matches cm (uds_dtc_of_bytes (snd p))"
  by (simp add: reported_def dtc_matches_def uds_dtc_of_bytes_def case_prod_beta)

definition dtc_report :: "u8 \<Rightarrow> (nat \<Rightarrow> int \<times> u8 list) \<Rightarrow> nat list \<Rightarrow> u8 list" where
  "dtc_report cm store ks = concat (map (snd \<circ> store) (filter (\<lambda>k. reported cm (store k)) ks))"

lemma four_bytes: "length bs = 4 \<Longrightarrow> bs = [bs ! 0, bs ! 1, bs ! 2, bs ! 3]"
  by (auto simp: length_Suc_conv numeral_eq_Suc)

lemma buf_put_four: "length bs = 4 \<Longrightarrow> length buf = 4 \<Longrightarrow> buf_put 0 (take 4 bs) buf = bs"
  by (simp add: buf_put_def)

lemma report_dtcs_spec:
  assumes "\<And>evs k. k \<in> set ks \<Longrightarrow> nvs_read e evs fs (0x100 + word_of_nat k) 4 = store k"
    and "\<And>k. k \<in> set ks \<Longrightarrow> fst (store k) = 4 \<Longrightarrow> length (snd (store k)) = 4"
    and "k0 + 4 * length ks \<le> length (uds_tx_buf i)" "length temp = 4"
  shows "fst (report_dtcs e fs cm ks temp k0 i) = k0 + length (dtc_report cm store ks) \<and>
    take (k0 + length (dtc_report cm store ks)) (uds_tx_buf (snd (report_dtcs e fs cm ks temp k0 i)))
      = take k0 (uds_tx_buf i) @ dtc_report cm store ks \<and>
    frames (trace (snd (report_dtcs e fs cm ks temp k0 i))) = frames (trace i)"
  using assms
proof (induction ks arbitrary: temp k0 i)
  case Nil
  then show ?case by (simp add: dtc_report_def)
next
  case (Cons k ks)
  define buf where "buf = buf_put 0 (take 4 (snd (store k))) temp"
  define j where "j = emit (Nvs_read fs (0x100 + word_of_nat k) 4) i"
  have rd: "nvs_read_into e fs (0x100 + word_of_nat k) temp i = (fst (store k), buf, j)"
    using Cons.prems(1,4) by (simp add: nvs_read_into_def case_prod_beta buf_def j_def)
  have lb: "length buf = 4" using Cons.prems(4) by (simp add: buf_def)
  have j: "trace j = Nvs_read fs (0x100 + word_of_nat k) 4 # trace i" "uds_tx_buf j = uds_tx_buf i"
    by (simp_all add: j_def)
  show ?case
  proof (cases "fst (store k) = 4 \<and> dtc_matches cm (uds_dtc_of_bytes buf)")
    case True
    then have l4: "length (snd (store k)) = 4" using Cons.prems(2) by simp
    then have b: "buf = snd (store k)"
      using buf_put_four Cons.prems(4) by (simp add: buf_def)
    define j' where "j' = tx_put (k0 + 3) [buf ! 3] (tx_put (k0 + 2) [buf ! 2]
      (tx_put (k0 + 1) [buf ! 1] (tx_put k0 [buf ! 0] j)))"
    have t: "take (k0 + 4) (uds_tx_buf j') = take k0 (uds_tx_buf i) @ buf"
      using Cons.prems(3) by (subst four_bytes [OF lb]) (simp add: j'_def j(2))
    have e: "report_dtcs e fs cm (k # ks) temp k0 i = report_dtcs e fs cm ks buf (k0 + 4) j'"
      using True by (simp add: rd Let_def j'_def uds_dtc_of_bytes_def)
    have r: "dtc_report cm store (k # ks) = buf @ dtc_report cm store ks"
      using True b by (simp add: dtc_report_def reported_iff case_prod_beta)
    have "length (uds_tx_buf j') = length (uds_tx_buf i)" "frames (trace j') = frames (trace i)"
      by (simp_all add: j'_def j)
    then show ?thesis
      unfolding e r using Cons.IH [of "k0 + 4" j' buf] Cons.prems lb t by (simp add: add.assoc)
  next
    case False
    have e: "report_dtcs e fs cm (k # ks) temp k0 i = report_dtcs e fs cm ks buf k0 j"
      using False by (auto simp: rd Let_def)
    have "\<not> reported cm (store k)"
      using False Cons.prems(2,4) buf_put_four [of "snd (store k)" temp]
      by (auto simp: reported_iff case_prod_beta buf_def)
    then have r: "dtc_report cm store (k # ks) = dtc_report cm store ks"
      by (simp add: dtc_report_def)
    show ?thesis
      unfolding e r using Cons.IH [of k0 j buf] Cons.prems lb by (simp add: j)
  qed
qed

lemma report_dtcs_all:
  assumes "\<And>evs k. nvs_read e evs fs k 4 = (4, bs)" "length bs = 4" "dtc_matches cm (uds_dtc_of_bytes bs)"
    "length temp = 4"
  shows "fst (report_dtcs e fs cm ks temp k0 i) = k0 + 4 * length ks \<and>
    (ks \<noteq> [] \<longrightarrow> mem_fault (snd (report_dtcs e fs cm ks temp k0 i)) =
      (mem_fault i \<or> length (uds_tx_buf i) < k0 + 4 * length ks))"
  using assms(4)
proof (induction ks arbitrary: temp k0 i)
  case (Cons k ks)
  have b: "buf_put 0 (take 4 bs) temp = bs" using buf_put_four assms(2) Cons.prems by simp
  have rd: "nvs_read_into e fs k' temp i = (4, bs, emit (Nvs_read fs k' 4) i)" for k'
    using assms(1) Cons.prems b by (simp add: nvs_read_into_def)
  define d where "d = uds_dtc_of_bytes bs"
  define j where "j = tx_put (k0 + 3) [status d] (tx_put (k0 + 2) [code d ! 2]
    (tx_put (k0 + 1) [code d ! 1] (tx_put k0 [code d ! 0]
      (emit (Nvs_read fs (NVS_DTC_START_ID + word_of_nat k) 4) i))))"
  have e: "report_dtcs e fs cm (k # ks) temp k0 i = report_dtcs e fs cm ks bs (k0 + 4) j"
    unfolding report_dtcs.simps rd using assms(3) by (simp add: Let_def d_def j_def)
  have "mem_fault j = (mem_fault i \<or> length (uds_tx_buf i) < k0 + 4)"
    "length (uds_tx_buf j) = length (uds_tx_buf i)" by (auto simp: j_def)
  then show ?case
    unfolding e using Cons.IH [OF assms(2), of "k0 + 4" j] by (cases "ks = []") auto
qed simp

section \<open>Properties\<close>

text \<open>
  C26: sub-function 2 reports exactly the stored trouble codes whose read gives four bytes and whose status
  matches the mask, in the order of their identifiers, behind the availability mask.
\<close>

theorem read_dtc_reports:
  assumes "uds_app_get_nvs_context (app e) (trace i) = Some fs"
    and "\<And>evs k. k < 16 \<Longrightarrow> nvs_read e evs fs (0x100 + word_of_nat k) 4 = store k"
    and "\<And>k. k < 16 \<Longrightarrow> fst (store k) = 4 \<Longrightarrow> length (snd (store k)) = 4"
    and "req ! 0 = 0x19" "req ! 1 = 0x02" "3 \<le> len" "67 \<le> length (uds_tx_buf i)"
  shows "frames (trace (uds_read_dtc_handle c e send nrc req len i)) =
    ([0x59, 0x02, 0x09] @ dtc_report (req ! 2) store [0..<16]) # frames (trace i)"
proof -
  define j where "j = tx_put 2 [0x09] (tx_put 1 [0x02] (tx_put 0 [0x59] (emit App_get_nvs_context i)))"
  define r where "r = report_dtcs e fs (req ! 2) [0..<16] (uninit_buf e (trace j) 4) 3 j"
  have j: "length (uds_tx_buf j) = length (uds_tx_buf i)" "trace j = App_get_nvs_context # trace i"
    "take 3 (uds_tx_buf j) = [0x59, 0x02, 0x09]"
    using take_head(2) [of "uds_tx_buf i" "0x09" "0x02" "0x59"] assms(7) by (simp_all add: j_def del: take_buf_put_next)
  have s: "fst r = 3 + length (dtc_report (req ! 2) store [0..<16])"
    "take (3 + length (dtc_report (req ! 2) store [0..<16])) (uds_tx_buf (snd r))
      = take 3 (uds_tx_buf j) @ dtc_report (req ! 2) store [0..<16]"
    "frames (trace (snd r)) = frames (trace j)"
    using report_dtcs_spec [of "[0..<16]" e fs store 3 j "uninit_buf e (trace j) 4" "req ! 2"] assms(2,3,7) j(1)
    by (simp_all add: r_def)
  have e: "uds_read_dtc_handle c e send nrc req len i = send_tx send (fst r) (snd r)"
    using assms(1,4,5,6) by (simp add: uds_read_dtc_handle_def Let_def case_prod_beta r_def j_def del: upt_Suc upt.simps)
  show ?thesis
    using s j by (simp add: e del: upt_Suc upt.simps)
qed

text \<open>Three entries: one that matches, one whose status has other bits only, one that is absent.\<close>

definition dtc_store :: "u16 \<Rightarrow> int \<times> u8 list" where
  "dtc_store k = (if k = 0x0100 then (4, [0x12, 0x34, 0x56, 0x01]) else if k = 0x0101 then (4, [1, 2, 3, 0x08])
     else (- ENOENT, []))"

definition dtc_env :: env where
  "dtc_env = (quiet_env nvs_hooks)\<lparr>nvs_read := \<lambda>evs fs k n. dtc_store k\<rparr>"

theorem read_dtc_reports_witness:
  "frames (trace (uds_read_dtc_handle kconfig_default dtc_env Uds_send_response Uds_send_nrc
     [0x19, 0x02, 0x01] 3 (io_0 kconfig_default))) =
     [[0x59, 0x02, 0x09] @ dtc_report 0x01 (\<lambda>k. dtc_store (0x0100 + word_of_nat k)) [0..<16]]"
proof -
  have "67 \<le> length (uds_tx_buf (io_0 kconfig_default))" by (simp add: io_0_def kconfig_default_def)
  moreover have "length (snd (dtc_store k)) = 4" if "fst (dtc_store k) = 4" for k
    using that by (auto simp: dtc_store_def split: if_splits)
  ultimately show ?thesis
    using read_dtc_reports [of dtc_env "io_0 kconfig_default" "App_fs 0" "\<lambda>k. dtc_store (0x0100 + word_of_nat k)"
      "[0x19, 0x02, 0x01]" 3 kconfig_default Uds_send_response Uds_send_nrc]
    by (simp add: dtc_env_def nvs_hooks_def io_0_def del: upt_Suc upt.simps)
qed

text \<open>
  C37: with the smallest buffer the configuration allows, sixteen matching codes are written past the end of
  the transmit buffer.
\<close>

theorem read_dtc_overflows:
  assumes "uds_app_get_nvs_context (app e) (trace i) = Some fs"
    and "\<And>evs k. nvs_read e evs fs k 4 = (4, bs)" "length bs = 4" "dtc_matches (req ! 2) (uds_dtc_of_bytes bs)"
    and "req ! 0 = 0x19" "req ! 1 = 0x02" "3 \<le> len" "length (uds_tx_buf i) = 64"
  shows "mem_fault (uds_read_dtc_handle c e send nrc req len i)"
proof -
  have r: "mem_fault (snd (report_dtcs e fs (req ! 2) [0..<16] temp 3 j))"
    if "length (uds_tx_buf j) = 64" "length temp = 4" for j temp
    using report_dtcs_all [OF assms(2-4), of temp "[0..<16]" 3 j] that by simp
  show ?thesis
    using assms r by (simp add: uds_read_dtc_handle_def Let_def case_prod_beta del: upt_Suc upt.simps)
qed

theorem read_dtc_overflows_witness:
  "mem_fault (uds_read_dtc_handle (kconfig_default\<lparr>CONFIG_UDS_BUFF_SIZE := 64\<rparr>)
     ((quiet_env nvs_hooks)\<lparr>nvs_read := \<lambda>evs fs k n. (4, [1, 2, 3, 9])\<rparr>)
     Uds_send_response Uds_send_nrc [0x19, 0x02, 0xFF] 3
     (io_0 (kconfig_default\<lparr>CONFIG_UDS_BUFF_SIZE := 64\<rparr>))) \<and>
   kconfig_ok (kconfig_default\<lparr>CONFIG_UDS_BUFF_SIZE := 64\<rparr>)"
proof
  show "mem_fault (uds_read_dtc_handle (kconfig_default\<lparr>CONFIG_UDS_BUFF_SIZE := 64\<rparr>)
     ((quiet_env nvs_hooks)\<lparr>nvs_read := \<lambda>evs fs k n. (4, [1, 2, 3, 9])\<rparr>)
     Uds_send_response Uds_send_nrc [0x19, 0x02, 0xFF] 3
     (io_0 (kconfig_default\<lparr>CONFIG_UDS_BUFF_SIZE := 64\<rparr>)))"
    by (rule read_dtc_overflows [where fs = "App_fs 0" and bs = "[1, 2, 3, 9]"])
      (simp_all add: nvs_hooks_def io_0_def dtc_matches_def uds_dtc_of_bytes_def)
qed (simp add: kconfig_ok_def kconfig_default_def)

end
