(* ===== verification/Uds_Write_Did.thy ===== *)
theory Uds_Write_Did
  imports Uds_Session
begin

text \<open>
  Service 0x2E, \<open>src/uds_write_did.c\<close>: a write is handed to the application when the session is
  extended and security is unlocked. The service keeps no state of its own.
\<close>

definition uds_write_did_handle ::
    "env \<Rightarrow> session_state \<Rightarrow> security_state \<Rightarrow> send_cb \<Rightarrow> nrc_cb \<Rightarrow> u8 list \<Rightarrow> nat \<Rightarrow> io \<Rightarrow> io" where
  "uds_write_did_handle e ses ss send nrc req len i =
     (if len = 0 then i else
      (let sid = req ! 0 in
       if uds_session_get ses \<noteq> UDS_SESSION_EXTENDED
       then call_nrc nrc sid UDS_NRC_SUB_FUNCTION_NOT_SUPPORTED_IN_ACTIVE_SESS i
       else if len < 3
       then call_nrc nrc sid UDS_NRC_INCORRECT_LENGTH_OR_INVALID_FORMAT i
       else if uds_security_get_status ss \<noteq> UDS_SEC_UNLOCKED
       then call_nrc nrc sid UDS_NRC_SECURITY_ACCESS_DENIED i else
       (let did = be16 (req ! 1) (req ! 2);
            data = take (len - 3) (drop 3 req);
            ret = uds_app_write_did (app e) (trace i) did data;
            i = emit (App_write_did did data) i
        in if ret = 0 then
             (let i = tx_put 0 [sid + 0x40] i;
                  i = tx_put 1 [req ! 1] i;
                  i = tx_put 2 [req ! 2] i
              in send_tx send 3 i)
           else if ret = - EINVAL
           then call_nrc nrc sid UDS_NRC_INCORRECT_LENGTH_OR_INVALID_FORMAT i
           else if ret = - ENOENT
           then call_nrc nrc sid UDS_NRC_REQUEST_OUT_OF_RANGE i
           else call_nrc nrc sid UDS_NRC_CONDITIONS_NOT_CORRECT i)))"

section \<open>Contract\<close>

interpretation wdid: gated_service "stateless (uds_write_did_handle e ses ss send nrc)" "0x2E"
    "current_session ses = UDS_SESSION_EXTENDED \<and> security_status ss = UDS_SEC_UNLOCKED"
  for e ses ss send nrc
proof (unfold_locales, goal_cases)
  case 1 then show ?case by (simp add: uds_write_did_handle_def Let_def served_intros)
next
  case (2 len req p) then show ?case
    by (simp add: stateless_def uds_write_did_handle_def Let_def drop_take cong: if_cong)
next
  case 3 then show ?case by (auto simp: uds_write_did_handle_def Let_def)
qed

section \<open>Effects\<close>

lemma write_did_calls:
  assumes "req ! 0 = 0x2E" "3 \<le> len" "current_session ses = UDS_SESSION_EXTENDED" "security_status ss = UDS_SEC_UNLOCKED"
  shows "\<exists>post. trace (uds_write_did_handle e ses ss send nrc req len i) =
    post @ App_write_did (be16 (req ! 1) (req ! 2)) (take (len - 3) (drop 3 req)) # trace i"
  using assms by (auto simp: uds_write_did_handle_def Let_def nrc_trace_def)

definition did_write_hooks :: "int \<Rightarrow> app_hooks" where
  "did_write_hooks r = weak_hooks\<lparr>uds_app_write_did := \<lambda>evs d bs. r\<rparr>"

text \<open>
  A write request has exactly these effects: the refusal of the first guard that fails, or the call of the
  application with the identifier and data of the request, and the answer to its result.
\<close>

theorem write_did_answers:
  assumes "len \<noteq> 0" "3 \<le> length (uds_tx_buf i)"
  shows "new_events i (uds_write_did_handle e ses ss send nrc req len i) =
    (let refuse = (\<lambda>code. nrc_trace (req ! 0) code (current_msg_addressing i));
         d = be16 (req ! 1) (req ! 2); bs = take (len - 3) (drop 3 req);
         ret = uds_app_write_did (app e) (trace i) d bs
     in if current_session ses \<noteq> UDS_SESSION_EXTENDED then refuse UDS_NRC_SUB_FUNCTION_NOT_SUPPORTED_IN_ACTIVE_SESS
        else if len < 3 then refuse UDS_NRC_INCORRECT_LENGTH_OR_INVALID_FORMAT
        else if security_status ss \<noteq> UDS_SEC_UNLOCKED then refuse UDS_NRC_SECURITY_ACCESS_DENIED
        else (if ret = 0 then [Isotp_send [req ! 0 + 0x40, req ! 1, req ! 2]]
              else if ret = - EINVAL then refuse UDS_NRC_INCORRECT_LENGTH_OR_INVALID_FORMAT
              else if ret = - ENOENT then refuse UDS_NRC_REQUEST_OUT_OF_RANGE
              else refuse UDS_NRC_CONDITIONS_NOT_CORRECT) @ [App_write_did d bs])"
  using assms by (intro new_events_eq) (cases "uds_tx_buf i = []"; simp add: uds_write_did_handle_def Let_def take_buf_put_first)

theorem write_did_answers_witness:
  "new_events (io_0 kconfig_default) (uds_write_did_handle (quiet_env (did_write_hooks 0))
     \<lparr>current_session = UDS_SESSION_EXTENDED\<rparr> ((security_state_0 kconfig_default)\<lparr>security_status := UDS_SEC_UNLOCKED\<rparr>)
     Uds_send_response Uds_send_nrc [0x2E, 0xF1, 0x90, 1, 2] 5 (io_0 kconfig_default))
   = [Isotp_send [0x6E, 0xF1, 0x90], App_write_did (be16 0xF1 0x90) [1, 2]]"
  by (subst write_did_answers)
    (simp_all add: io_0_def did_write_hooks_def kconfig_default_def)

end
