(* ===== verification/Uds_Iocontrol.thy ===== *)
theory Uds_Iocontrol
  imports Uds_Session
begin

text \<open>
  Service 0x2F, \<open>src/uds_iocontrol.c\<close>: actuator control, handed to the application when the
  session is extended and security is unlocked. The service keeps no state of its own.
\<close>

definition uds_handle_io_control ::
    "env \<Rightarrow> session_state \<Rightarrow> security_state \<Rightarrow> send_cb \<Rightarrow> nrc_cb \<Rightarrow> u8 list \<Rightarrow> nat \<Rightarrow> io \<Rightarrow> io" where
  "uds_handle_io_control e ses ss send nrc req len i =
     (if len = 0 then i else
      (let sid = req ! 0 in
       if uds_session_get ses \<noteq> UDS_SESSION_EXTENDED
       then call_nrc nrc sid UDS_NRC_SUB_FUNCTION_NOT_SUPPORTED_IN_ACTIVE_SESS i
       else if uds_security_get_status ss \<noteq> UDS_SEC_UNLOCKED
       then call_nrc nrc sid UDS_NRC_SECURITY_ACCESS_DENIED i
       else if len < 4
       then call_nrc nrc sid UDS_NRC_INCORRECT_LENGTH_OR_INVALID_FORMAT i else
       (let data_id = be16 (req ! 1) (req ! 2);
            control_param = req ! 3;
            options = take (len - 4) (drop 4 req);
            (ret, output_status) =
              uds_app_io_control (app e) (trace i) data_id control_param options 0;
            i = emit (App_io_control data_id control_param options) i
        in if ret = 0 then
             (let i = tx_put 0 [sid + 0x40] i;
                  i = tx_put 1 [req ! 1] i;
                  i = tx_put 2 [req ! 2] i;
                  i = tx_put 3 [control_param] i;
                  i = tx_put 4 [output_status] i
              in send_tx send 5 i)
           else if ret = - EINVAL
           then call_nrc nrc sid UDS_NRC_INCORRECT_LENGTH_OR_INVALID_FORMAT i
           else if ret = - ENOENT
           then call_nrc nrc sid UDS_NRC_REQUEST_OUT_OF_RANGE i
           else call_nrc nrc sid UDS_NRC_CONDITIONS_NOT_CORRECT i)))"

section \<open>Contract\<close>

interpretation ioc: gated_service "stateless (uds_handle_io_control e ses ss send nrc)" "0x2F"
    "current_session ses = UDS_SESSION_EXTENDED \<and> security_status ss = UDS_SEC_UNLOCKED"
  for e ses ss send nrc
proof (unfold_locales, goal_cases)
  case 1 then show ?case
    by (simp add: uds_handle_io_control_def Let_def served_intros split: prod.splits)
next
  case (2 len req p) then show ?case
    by (simp add: stateless_def uds_handle_io_control_def Let_def drop_take cong: if_cong)
next
  case 3 then show ?case by (auto simp: uds_handle_io_control_def Let_def)
qed

end
