(* ===== verification/Uds_Flash_Pipeline.thy ===== *)
theory Uds_Flash_Pipeline
  imports Uds_Session
begin

text \<open>
  Services 0x34, 0x36 and 0x37, \<open>src/uds_flash_pipeline.c\<close>: a download is negotiated (and the target
  erased), streamed block by block, and closed.
\<close>

section \<open>State\<close>

datatype flash_pipeline_state =
  FLASH_STATE_IDLE | FLASH_STATE_DOWNLOAD_APPROVED | FLASH_STATE_TRANSFERRING

record flash_state =
  pipeline_state :: flash_pipeline_state
  memory_address :: u32
  memory_size :: u32
  bytes_received :: u32
  expected_block_counter :: u8

definition uds_flash_pipeline_init :: "flash_state \<Rightarrow> flash_state" where
  "uds_flash_pipeline_init fl =
     fl\<lparr>pipeline_state := FLASH_STATE_IDLE, memory_address := 0, memory_size := 0,
        bytes_received := 0, expected_block_counter := 1\<rparr>"

definition flash_state_0 :: flash_state where
  "flash_state_0 =
     \<lparr>pipeline_state = FLASH_STATE_IDLE, memory_address = 0, memory_size = 0,
      bytes_received = 0, expected_block_counter = 1\<rparr>"

section \<open>Operations\<close>

text \<open>
  The loops \<open>for (i = 0; i < n; i++) acc = (acc << 8) | req[idx++];\<close> that read the address and
  the size: result and next index.
\<close>

fun read_be :: "u8 list \<Rightarrow> nat \<Rightarrow> nat \<Rightarrow> u32 \<Rightarrow> u32 \<times> nat" where
  "read_be req idx 0 acc = (acc, idx)"
| "read_be req idx (Suc n) acc = read_be req (Suc idx) n (be_step acc (req ! idx))"

definition uds_handle_request_download ::
    "kconfig \<Rightarrow> env \<Rightarrow> session_state \<Rightarrow> security_state \<Rightarrow> send_cb \<Rightarrow> nrc_cb \<Rightarrow>
     u8 list \<Rightarrow> nat \<Rightarrow> flash_state \<times> io \<Rightarrow> flash_state \<times> io" where
  "uds_handle_request_download c e ses ss send nrc req len = (\<lambda>(fl, i).
     (let sid = req ! 0 in
      if uds_session_get ses = UDS_SESSION_DEFAULT
      then (fl, call_nrc nrc sid UDS_NRC_SUB_FUNCTION_NOT_SUPPORTED_IN_ACTIVE_SESS i)
      else if uds_security_get_status ss \<noteq> UDS_SEC_UNLOCKED
      then (fl, call_nrc nrc sid UDS_NRC_SECURITY_ACCESS_DENIED i)
      else if len < 5
      then (fl, call_nrc nrc sid UDS_NRC_INCORRECT_LENGTH_OR_INVALID_FORMAT i) else
      (let alf_id = req ! 2;
           memory_address_len = unat (alf_id AND 0x0F);
           memory_size_len = unat (drop_bit 4 alf_id AND 0x0F)
       in if len \<noteq> 3 + memory_address_len + memory_size_len
          then (fl, call_nrc nrc sid UDS_NRC_INCORRECT_LENGTH_OR_INVALID_FORMAT i) else
          (let (addr, idx) = read_be req 3 memory_address_len 0;
               (sz, idx) = read_be req idx memory_size_len 0;
               fl = fl\<lparr>memory_address := addr, memory_size := sz\<rparr>;
               ret = uds_app_flash_erase_target (app e) (trace i) addr sz;
               i = emit (App_flash_erase_target addr sz) i
           in if ret \<noteq> 0
              then (fl, call_nrc nrc sid UDS_NRC_UPLOAD_DOWNLOAD_NOT_ACCEPTED i) else
              (let fl = fl\<lparr>bytes_received := 0, expected_block_counter := 1,
                          pipeline_state := FLASH_STATE_DOWNLOAD_APPROVED\<rparr>;
                   n = CONFIG_UDS_BUFF_SIZE c;
                   i = tx_put 0 [sid + 0x40] i;
                   i = tx_put 1 [0x20] i;
                   i = tx_put 2 [word_of_nat (n div 256)] i;
                   i = tx_put 3 [word_of_nat (n mod 256)] i
               in (fl, send_tx send 4 i))))))"

definition uds_handle_transfer_data ::
    "env \<Rightarrow> send_cb \<Rightarrow> nrc_cb \<Rightarrow> u8 list \<Rightarrow> nat \<Rightarrow> flash_state \<times> io \<Rightarrow> flash_state \<times> io" where
  "uds_handle_transfer_data e send nrc req len = (\<lambda>(fl, i).
     (let sid = req ! 0 in
      if pipeline_state fl \<noteq> FLASH_STATE_DOWNLOAD_APPROVED \<and>
         pipeline_state fl \<noteq> FLASH_STATE_TRANSFERRING
      then (fl, call_nrc nrc sid UDS_NRC_REQUEST_SEQUENCE_ERROR i)
      else if len < 3
      then (fl, call_nrc nrc sid UDS_NRC_INCORRECT_LENGTH_OR_INVALID_FORMAT i) else
      (let block_counter = req ! 1 in
       if block_counter \<noteq> expected_block_counter fl
       then (fl, call_nrc nrc sid UDS_NRC_WRONG_BLOCK_SEQUENCE_COUNTER i) else
       (let payload_len = len - 2;
            payload = take payload_len (drop 2 req);
            current_offset = memory_address fl + bytes_received fl;
            ret = uds_app_flash_write_block (app e) (trace i) current_offset payload;
            i = emit (App_flash_write_block current_offset payload) i
        in if ret \<noteq> 0
           then (fl, call_nrc nrc sid UDS_NRC_TRANSFER_DATA_SUSPENDED i) else
           (let fl = fl\<lparr>bytes_received := bytes_received fl + word_of_nat payload_len,
                       expected_block_counter := expected_block_counter fl + 1,
                       pipeline_state := FLASH_STATE_TRANSFERRING\<rparr>;
                i = tx_put 0 [sid + 0x40] i;
                i = tx_put 1 [block_counter] i
            in (fl, send_tx send 2 i))))))"

definition uds_handle_request_transfer_exit ::
    "send_cb \<Rightarrow> nrc_cb \<Rightarrow> u8 list \<Rightarrow> nat \<Rightarrow> flash_state \<times> io \<Rightarrow> flash_state \<times> io" where
  "uds_handle_request_transfer_exit send nrc req len = (\<lambda>(fl, i).
     (let sid = req ! 0 in
      if pipeline_state fl \<noteq> FLASH_STATE_TRANSFERRING
      then (fl, call_nrc nrc sid UDS_NRC_REQUEST_SEQUENCE_ERROR i) else
      (let fl = fl\<lparr>pipeline_state := FLASH_STATE_IDLE\<rparr>;
           i = tx_put 0 [sid + 0x40] i
       in (fl, send_tx send 1 i))))"

section \<open>Reading the address and the size\<close>

lemma read_be_eq:
  "idx + n \<le> length req \<Longrightarrow> read_be req idx n acc = (foldl be_step acc (take n (drop idx req)), idx + n)"
proof (induction req idx n acc rule: read_be.induct)
  case (2 req idx n acc)
  then have "take (Suc n) (drop idx req) = req ! idx # take n (drop (Suc idx) req)"
    by (simp add: Cons_nth_drop_Suc [symmetric])
  with 2 show ?case by simp
qed simp

lemma read_be_take: "idx + n \<le> k \<Longrightarrow> read_be (take k req) idx n acc = read_be req idx n acc"
  by (induction req idx n acc rule: read_be.induct) simp_all

lemma read_be_index: "snd (read_be req idx n acc) = idx + n"
  by (induction req idx n acc rule: read_be.induct) simp_all

section \<open>Contract\<close>

interpretation rdl: gated_service "uds_handle_request_download c e ses ss send nrc" "0x34"
    "current_session ses \<noteq> UDS_SESSION_DEFAULT \<and> security_status ss = UDS_SEC_UNLOCKED"
  for c e ses ss send nrc
proof (unfold_locales, goal_cases)
  case 1 then show ?case
    by (simp add: uds_handle_request_download_def Let_def served_intros split: prod.splits)
next
  case (2 len req p)
  obtain fl i where p: "p = (fl, i)" by fastforce
  show ?case
    using 2 unfolding p uds_handle_request_download_def
    by (simp add: Let_def read_be_take read_be_index case_prod_beta cong: if_cong)
next
  case 3 then show ?case by (auto simp: uds_handle_request_download_def Let_def)
qed

interpretation trd: service "uds_handle_transfer_data e send nrc" "0x36" for e send nrc
proof (unfold_locales, goal_cases)
  case 1 then show ?case by (simp add: uds_handle_transfer_data_def Let_def served_intros)
next
  case (2 len req p) then show ?case
    by (cases p) (simp add: uds_handle_transfer_data_def Let_def drop_take cong: if_cong)
qed

interpretation rte: service "uds_handle_request_transfer_exit send nrc" "0x37" for send nrc
proof (unfold_locales, goal_cases)
  case 1 then show ?case by (simp add: uds_handle_request_transfer_exit_def Let_def served_intros)
next
  case (2 len req p) then show ?case
    by (cases p) (simp add: uds_handle_request_transfer_exit_def Let_def cong: if_cong)
qed

section \<open>The image a download writes\<close>

text \<open>The writes the hook was asked for, newest first, and their effect on a memory.\<close>

fun flash_writes :: "trace \<Rightarrow> (u32 \<times> u8 list) list" where
  "flash_writes [] = []"
| "flash_writes (App_flash_write_block a d # evs) = (a, d) # flash_writes evs"
| "flash_writes (_ # evs) = flash_writes evs"

text \<open>A series of TransferData requests with consecutive block counters.\<close>

fun transfer_all :: "env \<Rightarrow> u8 \<Rightarrow> u8 list list \<Rightarrow> flash_state \<times> io \<Rightarrow> flash_state \<times> io" where
  "transfer_all e k [] p = p"
| "transfer_all e k (b # bs) p =
     transfer_all e (k + 1) bs
       (uds_handle_transfer_data e Uds_send_response Uds_send_nrc (0x36 # k # b) (2 + length b) p)"

fun block_offsets :: "u32 \<Rightarrow> u8 list list \<Rightarrow> (u32 \<times> u8 list) list" where
  "block_offsets a [] = []"
| "block_offsets a (b # bs) = (a, b) # block_offsets (a + word_of_nat (length b)) bs"

definition store_block :: "u32 \<times> u8 list \<Rightarrow> (u32 \<Rightarrow> u8 option) \<Rightarrow> u32 \<Rightarrow> u8 option" where
  "store_block = (\<lambda>(a, d) m x. if unat (x - a) < length d then Some (d ! unat (x - a)) else m x)"

definition streaming :: "flash_state \<Rightarrow> bool" where
  "streaming fl \<longleftrightarrow> pipeline_state fl \<noteq> FLASH_STATE_IDLE"

lemma transfer_ok:
  assumes "streaming fl" "b \<noteq> []"
    "uds_app_flash_write_block (app e) (trace i) (memory_address fl + bytes_received fl) b = 0"
  shows "fst (uds_handle_transfer_data e send nrc (0x36 # expected_block_counter fl # b) (2 + length b) (fl, i))
      = fl\<lparr>bytes_received := bytes_received fl + word_of_nat (length b),
           expected_block_counter := expected_block_counter fl + 1,
           pipeline_state := FLASH_STATE_TRANSFERRING\<rparr>"
    and "flash_writes (trace (snd (uds_handle_transfer_data e send nrc (0x36 # expected_block_counter fl # b) (2 + length b) (fl, i))))
      = (memory_address fl + bytes_received fl, b) # flash_writes (trace i)"
proof -
  have g: "(pipeline_state fl \<noteq> FLASH_STATE_DOWNLOAD_APPROVED \<and> pipeline_state fl \<noteq> FLASH_STATE_TRANSFERRING) = False"
    using assms(1) by (cases "pipeline_state fl") (simp_all add: streaming_def)
  have l: "\<not> 2 + length b < 3" using assms(2) by (cases b) simp_all
  show "fst (uds_handle_transfer_data e send nrc (0x36 # expected_block_counter fl # b) (2 + length b) (fl, i))
      = fl\<lparr>bytes_received := bytes_received fl + word_of_nat (length b),
           expected_block_counter := expected_block_counter fl + 1,
           pipeline_state := FLASH_STATE_TRANSFERRING\<rparr>"
    "flash_writes (trace (snd (uds_handle_transfer_data e send nrc (0x36 # expected_block_counter fl # b) (2 + length b) (fl, i))))
      = (memory_address fl + bytes_received fl, b) # flash_writes (trace i)"
    using l assms(3) unfolding uds_handle_transfer_data_def prod.case Let_def g by simp_all
qed

lemma transfer_all_ok:
  assumes "streaming fl" "\<forall>b \<in> set bs. b \<noteq> []"
    "\<And>evs a d. uds_app_flash_write_block (app e) evs a d = 0"
  shows "fst (transfer_all e (expected_block_counter fl) bs (fl, i)) =
      (if bs = [] then fl else
       fl\<lparr>bytes_received := bytes_received fl + word_of_nat (length (concat bs)),
          expected_block_counter := expected_block_counter fl + word_of_nat (length bs),
          pipeline_state := FLASH_STATE_TRANSFERRING\<rparr>) \<and>
    flash_writes (trace (snd (transfer_all e (expected_block_counter fl) bs (fl, i)))) =
      rev (block_offsets (memory_address fl + bytes_received fl) bs) @ flash_writes (trace i)"
  using assms(1,2)
proof (induction bs arbitrary: fl i)
  case (Cons b bs)
  define q where "q = uds_handle_transfer_data e Uds_send_response Uds_send_nrc
    (0x36 # expected_block_counter fl # b) (2 + length b) (fl, i)"
  define fl' where "fl' = fl\<lparr>bytes_received := bytes_received fl + word_of_nat (length b),
           expected_block_counter := expected_block_counter fl + 1,
           pipeline_state := FLASH_STATE_TRANSFERRING\<rparr>"
  have q: "q = (fl', snd q)" "flash_writes (trace (snd q)) =
      (memory_address fl + bytes_received fl, b) # flash_writes (trace i)"
    using transfer_ok [OF Cons.prems(1), of b e i Uds_send_response Uds_send_nrc] Cons.prems(2) assms(3)
    by (simp_all add: q_def fl'_def prod_eq_iff)
  have "streaming fl'" by (simp add: fl'_def streaming_def)
  from Cons.IH [OF this, of "snd q"] Cons.prems(2)
  have ih: "fst (transfer_all e (expected_block_counter fl') bs q) =
      (if bs = [] then fl' else
       fl'\<lparr>bytes_received := bytes_received fl' + word_of_nat (length (concat bs)),
          expected_block_counter := expected_block_counter fl' + word_of_nat (length bs),
          pipeline_state := FLASH_STATE_TRANSFERRING\<rparr>)"
    "flash_writes (trace (snd (transfer_all e (expected_block_counter fl') bs q))) =
      rev (block_offsets (memory_address fl' + bytes_received fl') bs) @ flash_writes (trace (snd q))"
    using q(1) by simp_all
  have e: "transfer_all e (expected_block_counter fl) (b # bs) (fl, i)
      = transfer_all e (expected_block_counter fl') bs q"
    by (simp add: q_def fl'_def)
  show ?case
    unfolding e using ih q(2)
    by (auto simp: fl'_def algebra_simps simp del: transfer_all.simps)
qed simp

lemma unat_sub_len:
  fixes y :: u32
  assumes "n < 2 ^ 32"
  shows "unat (y - word_of_nat n) = (if n \<le> unat y then unat y - n else unat y + 2 ^ 32 - n)"
proof -
  have w: "unat (word_of_nat n :: u32) = n"
    using assms by (simp add: unsigned_of_nat take_bit_nat_eq_self)
  have "unat y < 2 ^ 32" using unsigned_less [of y] by simp
  then show ?thesis
    using w assms by (auto simp: unat_sub_if')
qed

lemma store_block_append:
  assumes "length (b @ d) \<le> 2 ^ 32"
  shows "store_block (a + word_of_nat (length b), d) (store_block (a, b) m) = store_block (a, b @ d) m"
proof (cases "d = []")
  case True then show ?thesis by (auto simp: store_block_def)
next
  case False
  then have n: "length b < 2 ^ 32" "length d \<le> 2 ^ 32 - length b"
    using assms by (cases d; simp)+
  show ?thesis
  proof
    fix x :: u32
    have x: "x - (a + word_of_nat (length b)) = (x - a) - word_of_nat (length b)" by simp
    have u: "unat (x - (a + word_of_nat (length b)))
        = (if length b \<le> unat (x - a) then unat (x - a) - length b else unat (x - a) + 2 ^ 32 - length b)"
      unfolding x by (rule unat_sub_len [OF n(1)])
    show "store_block (a + word_of_nat (length b), d) (store_block (a, b) m) x
        = store_block (a, b @ d) m x"
      using n(2) by (auto simp: store_block_def u nth_append)
  qed
qed

lemma fold_store_block_offsets:
  assumes "length (concat bs) \<le> 2 ^ 32"
  shows "fold store_block (block_offsets a bs) m = store_block (a, concat bs) m"
  using assms
proof (induction bs arbitrary: a m)
  case Nil then show ?case by (auto simp: store_block_def)
next
  case (Cons b bs)
  then show ?case by (simp add: store_block_append)
qed

lemma alf_split:
  assumes "a < 16" "s < 16"
  shows "unat ((word_of_nat (16 * s + a) :: u8) AND 0x0F) = a"
    "unat (drop_bit 4 (word_of_nat (16 * s + a) :: u8) AND 0x0F) = s"
proof -
  have "16 * s + a < 2 ^ 8" using assms by simp
  then have u: "unat (word_of_nat (16 * s + a) :: u8) = 16 * s + a"
    unfolding unsigned_of_nat by (simp only: take_bit_nat_eq_self len_num0 len_num1 len_bit0 len_bit1) (simp add: take_bit_nat_eq_self)
  have m: "x AND 0x0F = take_bit 4 x" for x :: u8
    by (simp add: take_bit_eq_mask mask_eq_exp_minus_1)
  show "unat ((word_of_nat (16 * s + a) :: u8) AND 0x0F) = a"
    unfolding m unsigned_take_bit_eq u using assms by (simp add: take_bit_eq_mod)
  show "unat (drop_bit 4 (word_of_nat (16 * s + a) :: u8) AND 0x0F) = s"
    unfolding m unsigned_take_bit_eq unsigned_drop_bit_eq u using assms
    by (simp add: take_bit_eq_mod drop_bit_eq_div)
qed

text \<open>A download request: the two lengths in one byte, then the address and the size.\<close>

definition download_request :: "u8 \<Rightarrow> u8 list \<Rightarrow> u8 list \<Rightarrow> u8 list" where
  "download_request fmt addr sz =
     [0x34, fmt, word_of_nat (16 * length sz + length addr)] @ addr @ sz"

lemma foldl_be_step_eq: "foldl be_step 0 bs = word_of_nat (be_val bs)"
  by (rule word_unat_eq_iff [THEN iffD2]) (simp add: unat_foldl_be_step unsigned_of_nat take_bit_eq_mod)

lemma read_download:
  "read_be (download_request fmt addr sz) 3 (length addr) 0 = (word_of_nat (be_val addr), 3 + length addr)"
  "read_be (download_request fmt addr sz) (3 + length addr) (length sz) 0
     = (word_of_nat (be_val sz), 3 + length addr + length sz)"
  by (simp_all add: read_be_eq download_request_def foldl_be_step_eq numeral_3_eq_3)

lemma download_fields:
  assumes "length addr < 16" "length sz < 16" "2 \<le> length (addr @ sz)"
  shows "download_request fmt addr sz ! 0 = 0x34"
    "length (download_request fmt addr sz) = 3 + length addr + length sz"
    "\<not> length (download_request fmt addr sz) < 5"
    "unat (download_request fmt addr sz ! 2 AND 0x0F) = length addr"
    "unat (drop_bit 4 (download_request fmt addr sz ! 2) AND 0x0F) = length sz"
proof -
  show "download_request fmt addr sz ! 0 = 0x34"
    "length (download_request fmt addr sz) = 3 + length addr + length sz"
    by (simp_all add: download_request_def)
  then show "\<not> length (download_request fmt addr sz) < 5" using assms(3) by simp
  have "download_request fmt addr sz ! 2 = word_of_nat (16 * length sz + length addr)"
    by (simp add: download_request_def)
  then show "unat (download_request fmt addr sz ! 2 AND 0x0F) = length addr"
    "unat (drop_bit 4 (download_request fmt addr sz ! 2) AND 0x0F) = length sz"
    by (simp_all only: alf_split [OF assms(1,2)])
qed

definition flash_ok_hooks :: app_hooks where
  "flash_ok_hooks = weak_hooks\<lparr>uds_app_flash_erase_target := \<lambda>evs a n. 0,
     uds_app_flash_write_block := \<lambda>evs a d. 0\<rparr>"

section \<open>Properties\<close>

text \<open>
  C25: a permitted download request is decoded as its format byte says: address and size are the big-endian
  values of their bytes (modulo \<open>2 ^ 32\<close>), and that range is erased. If the application accepts, the pipeline is approved at
  block 1 and the answer carries the buffer size; if it refuses, the answer is negative, but a transfer in
  progress continues at the new address, which was not erased.
\<close>

theorem download_decodes:
  fixes fmt :: u8 and fl :: flash_state and e :: env and i :: io
  assumes "current_session ses \<noteq> UDS_SESSION_DEFAULT" "security_status ss = UDS_SEC_UNLOCKED"
    "length addr < 16" "length sz < 16" "2 \<le> length (addr @ sz)" "4 \<le> length (uds_tx_buf i)"
  defines "req \<equiv> download_request fmt addr sz"
    and "fl' \<equiv> fl\<lparr>memory_address := word_of_nat (be_val addr), memory_size := word_of_nat (be_val sz)\<rparr>"
    and "ret \<equiv> uds_app_flash_erase_target (app e) (trace i) (word_of_nat (be_val addr)) (word_of_nat (be_val sz))"
  shows "fst (uds_handle_request_download c e ses ss send nrc req (length req) (fl, i)) =
      (if ret = 0 then fl'\<lparr>bytes_received := 0, expected_block_counter := 1,
         pipeline_state := FLASH_STATE_DOWNLOAD_APPROVED\<rparr> else fl') \<and>
    trace (snd (uds_handle_request_download c e ses ss send nrc req (length req) (fl, i))) =
      (if ret = 0 then [Isotp_send [0x74, 0x20, word_of_nat (CONFIG_UDS_BUFF_SIZE c div 256),
                          word_of_nat (CONFIG_UDS_BUFF_SIZE c mod 256)]]
       else nrc_trace 0x34 UDS_NRC_UPLOAD_DOWNLOAD_NOT_ACCEPTED (current_msg_addressing i))
      @ App_flash_erase_target (word_of_nat (be_val addr)) (word_of_nat (be_val sz)) # trace i"
proof -
  have "uds_tx_buf i \<noteq> []" using assms(6) by auto
  then show ?thesis
    using assms(1,2,6) read_download [of fmt addr sz] download_fields [OF assms(3-5), of fmt]
    by (simp add: uds_handle_request_download_def Let_def req_def fl'_def ret_def take_buf_put_first)
qed

theorem download_decodes_witness:
  "fst (uds_handle_request_download kconfig_default (quiet_env flash_ok_hooks)
     \<lparr>current_session = UDS_SESSION_PROGRAMMING\<rparr>
     ((security_state_0 kconfig_default)\<lparr>security_status := UDS_SEC_UNLOCKED\<rparr>)
     Uds_send_response Uds_send_nrc (download_request 0 [0x08, 0x01, 0, 0] [0x40, 0])
     (length (download_request 0 [0x08, 0x01, 0, 0] [0x40, 0])) (flash_state_0, io_0 kconfig_default))
   = \<lparr>pipeline_state = FLASH_STATE_DOWNLOAD_APPROVED, memory_address = 0x08010000, memory_size = 0x4000,
      bytes_received = 0, expected_block_counter = 1\<rparr>"
proof -
  have "4 \<le> length (uds_tx_buf (io_0 kconfig_default))"
    by (simp add: io_0_def kconfig_default_def)
  then show ?thesis
    using download_decodes [where ses = "\<lparr>current_session = UDS_SESSION_PROGRAMMING\<rparr>"
      and ss = "(security_state_0 kconfig_default)\<lparr>security_status := UDS_SEC_UNLOCKED\<rparr>"
      and addr = "[0x08, 0x01, 0, 0]" and sz = "[0x40, 0]" and i = "io_0 kconfig_default"
      and e = "quiet_env flash_ok_hooks" and fmt = 0 and fl = flash_state_0]
    by (simp add: flash_ok_hooks_def flash_state_0_def)
qed

text \<open>
  C15: streaming blocks with consecutive counters after an approved download leaves in memory exactly the
  concatenation of the blocks at the negotiated address, however it was cut into blocks and also
  when the 8-bit block counter wraps.
\<close>

theorem transfer_stores_image:
  assumes "pipeline_state fl = FLASH_STATE_DOWNLOAD_APPROVED" "bytes_received fl = 0"
    "\<forall>b \<in> set bs. b \<noteq> []" "length (concat bs) \<le> 2 ^ 32"
    "\<And>evs a d. uds_app_flash_write_block (app e) evs a d = 0" "flash_writes (trace i) = []"
  shows "fold store_block (rev (flash_writes (trace (snd
      (transfer_all e (expected_block_counter fl) bs (fl, i)))))) mem
    = store_block (memory_address fl, concat bs) mem"
  using transfer_all_ok [of fl bs e i] assms
  by (simp add: streaming_def fold_store_block_offsets)

theorem transfer_stores_image_witness:
  "fold store_block (rev (flash_writes (trace (snd (transfer_all (quiet_env flash_ok_hooks) 1
      [[1, 2], [3]] (flash_state_0\<lparr>pipeline_state := FLASH_STATE_DOWNLOAD_APPROVED, memory_address := 0x100\<rparr>,
        io_0 kconfig_default)))))) (\<lambda>a. None)
    = store_block (0x100, [1, 2, 3]) (\<lambda>a. None)"
  using transfer_stores_image [of "flash_state_0\<lparr>pipeline_state := FLASH_STATE_DOWNLOAD_APPROVED, memory_address := 0x100\<rparr>"
    "[[1, 2], [3]]" "quiet_env flash_ok_hooks" "io_0 kconfig_default" "\<lambda>a. None"]
  by (simp add: flash_state_0_def flash_ok_hooks_def io_0_def del: transfer_all.simps)

end
