(* ===== verification/Uds_Dynamic_Did.thy ===== *)
theory Uds_Dynamic_Did
  imports Uds_Service
begin

text \<open>
  Service 0x2C, \<open>src/uds_dynamic_did.c\<close>: one dynamic identifier that stands for slices of other
  identifiers, and the assembly of its value for service 0x22.
\<close>

record dynamic_entry =
  source_did :: u16
  position :: u8
  slice_length :: u8

record dynamic_did_map =
  dyn_did :: u16
  entries :: "dynamic_entry list"
  entry_count :: u8

text \<open>The static table starts zeroed.\<close>

definition dyn_map_0 :: dynamic_did_map where
  "dyn_map_0 =
     \<lparr>dyn_did = 0, entries = replicate 4 \<lparr>source_did = 0, position = 0, slice_length = 0\<rparr>,
      entry_count = 0\<rparr>"

definition uds_handle_define_dynamic_did ::
    "send_cb \<Rightarrow> nrc_cb \<Rightarrow> u8 list \<Rightarrow> nat \<Rightarrow> dynamic_did_map \<times> io \<Rightarrow> dynamic_did_map \<times> io" where
  "uds_handle_define_dynamic_did send nrc req len = (\<lambda>(dm, i).
     (let sid = req ! 0 in
      if len < 9
      then (dm, call_nrc nrc sid UDS_NRC_INCORRECT_LENGTH_OR_INVALID_FORMAT i) else
      (let sub_function = req ! 1 in
       if sub_function \<noteq> 0x01
       then (dm, call_nrc nrc sid UDS_NRC_SUB_FUNCTION_NOT_SUPPORTED i)
       else
         (dm\<lparr>dyn_did := be16 (req ! 2) (req ! 3),
             entries := (entries dm)
               [0 := (entries dm ! 0)\<lparr>source_did := be16 (req ! 4) (req ! 5),
                                      position := req ! 6, slice_length := req ! 7\<rparr>],
             entry_count := 1\<rparr>,
          call_send send [0x6C, sub_function, req ! 2, req ! 3] 4 i))))"

text \<open>
  One round of the assembly loop copies \<open>length\<close> bytes from \<open>temp_src_buf[position - 1]\<close> to the output.
  The output buffer is \<open>uds_tx_buf\<close> from an offset. Neither bound is checked in C, so a slice that leaves
  the 64 bytes of \<open>temp_src_buf\<close> is a memory fault.
\<close>

definition slice_in_buf :: "dynamic_entry \<Rightarrow> bool" where
  "slice_in_buf d \<longleftrightarrow> 1 \<le> unat (position d) \<and> unat (position d) - 1 + unat (slice_length d) \<le> 64"

fun assemble_entries ::
    "env \<Rightarrow> nat \<Rightarrow> dynamic_entry list \<Rightarrow> u8 list \<Rightarrow> nat \<Rightarrow> nat \<Rightarrow> io \<Rightarrow> nat \<times> io" where
  "assemble_entries e off [] temp_src_buf src_len total_len i = (total_len, i)"
| "assemble_entries e off (d # ds) temp_src_buf src_len total_len i =
     (let (ret, data, src_len) =
            uds_app_read_did (app e) (trace i) (source_did d) src_len 64;
          i = fault_if (length data > 64) (emit (App_read_did (source_did d) 64) i);
          temp_src_buf = buf_put 0 data temp_src_buf
      in if ret = 0
         then
           (let i = fault_if (\<not> slice_in_buf d) i;
                slice = take (unat (slice_length d))
                          (drop (unat (position d) - 1) temp_src_buf);
                i = tx_put (off + total_len) slice i
            in assemble_entries e off ds temp_src_buf src_len
                 (total_len + unat (slice_length d)) i)
         else assemble_entries e off ds temp_src_buf src_len total_len i)"

definition uds_read_dynamic_did_payload ::
    "env \<Rightarrow> u16 \<Rightarrow> nat \<Rightarrow> nat \<Rightarrow> dynamic_did_map \<Rightarrow> io \<Rightarrow> int \<times> nat \<times> io" where
  "uds_read_dynamic_did_payload e did off len_out dm i =
     (if dyn_did dm \<noteq> did \<or> entry_count dm = 0
      then (- ENOENT, len_out, i) else
      (let (total_len, i) =
             assemble_entries e off (take (unat (entry_count dm)) (entries dm))
               (uninit_buf e (trace i) 64) 0 0 i
       in (0, total_len, i)))"

section \<open>Contract\<close>

interpretation ddd: service "uds_handle_define_dynamic_did send nrc" "0x2C" for send nrc
proof (unfold_locales, goal_cases)
  case 1 then show ?case by (simp add: uds_handle_define_dynamic_did_def Let_def served_intros)
next
  case (2 len req p) then show ?case
    by (cases p) (simp add: uds_handle_define_dynamic_did_def Let_def cong: if_cong)
qed

lemma quiet_assemble [served_intros]:
  "quiet 0x22 i j \<Longrightarrow> quiet 0x22 i (snd (assemble_entries e off ds buf n t j))"
  by (induction e off ds buf n t j rule: assemble_entries.induct)
    (simp_all add: Let_def served_intros split: prod.splits)

lemma quiet_dynamic_payload [served_intros]:
  "quiet 0x22 i j \<Longrightarrow> quiet 0x22 i (snd (snd (uds_read_dynamic_did_payload e did off n dm j)))"
  by (simp add: uds_read_dynamic_did_payload_def Let_def served_intros split: prod.splits)

lemma assemble_length [simp]:
  "length (uds_tx_buf (snd (assemble_entries e off ds buf n t j))) = length (uds_tx_buf j)"
  by (induction ds arbitrary: buf n t j) (simp_all add: Let_def case_prod_beta)

lemma dynamic_payload_length [simp]:
  "length (uds_tx_buf (snd (snd (uds_read_dynamic_did_payload e did off n dm j))))
     = length (uds_tx_buf j)"
  by (simp add: uds_read_dynamic_did_payload_def Let_def case_prod_beta)

lemma dynamic_payload_Nil [simp]:
  "uds_tx_buf (snd (snd (uds_read_dynamic_did_payload e did off n dm j))) = []
     \<longleftrightarrow> uds_tx_buf j = []"
  by (metis length_0_conv dynamic_payload_length)

text \<open>A request that defines \<open>did\<close> as \<open>n\<close> bytes of \<open>src\<close> from position \<open>pos\<close> (counted from 1).\<close>

definition define_request :: "u16 \<Rightarrow> u16 \<Rightarrow> u8 \<Rightarrow> u8 \<Rightarrow> u8 \<Rightarrow> u8 list" where
  "define_request did src pos n x =
     [0x2C, 0x01, ucast (drop_bit 8 did), ucast did, ucast (drop_bit 8 src), ucast src, pos, n, x]"

lemma define_effect:
  "fst (uds_handle_define_dynamic_did send nrc (define_request did src pos n x) 9 (dm, i)) =
     dm\<lparr>dyn_did := did,
        entries := (entries dm)[0 := (entries dm ! 0)\<lparr>source_did := src, position := pos, slice_length := n\<rparr>],
        entry_count := 1\<rparr>"
  by (simp add: uds_handle_define_dynamic_did_def define_request_def Let_def be16_split)

definition did_hooks :: "u8 list \<Rightarrow> app_hooks" where
  "did_hooks data = weak_hooks\<lparr>uds_app_read_did := \<lambda>evs d n m. (0, data, length data)\<rparr>"

section \<open>Properties\<close>

text \<open>
  C27: after a dynamic identifier is defined as a slice of another one, reading it yields exactly that
  slice of what the application supplies, provided the slice lies within the data.
\<close>

theorem dynamic_did_roundtrip:
  fixes x :: u8
  assumes "length (entries dm) = 4" "\<And>evs k m. uds_app_read_did (app e) evs src k m = (0, data, length data)"
    and "1 \<le> unat pos" "unat pos - 1 + unat n \<le> length data" "length data \<le> 64"
    and "off + unat n \<le> length (uds_tx_buf i)"
    and "uds_handle_define_dynamic_did send nrc (define_request did src pos n x) 9 (dm, j) = (dm', j')"
    and "uds_read_dynamic_did_payload e did off k dm' i = (ret, m, i')"
  shows "ret = 0 \<and> m = unat n \<and>
    take (unat n) (drop off (uds_tx_buf i')) = take (unat n) (drop (unat pos - 1) data) \<and>
    mem_fault i' = mem_fault i"
proof -
  obtain d ds where d: "entries dm = d # ds" using assms(1) by (cases "entries dm") auto
  have t: "take (unat n) (drop (unat pos - 1) (buf_put 0 data (uninit_buf e (trace i) 64)))
      = take (unat n) (drop (unat pos - 1) data)"
    using assms(4,5) by (simp add: buf_put_def)
  have l: "length (take (unat n) (drop (unat pos - 1) data)) = unat n" using assms(4) by simp
  have s: "take (unat n) (drop off (buf_put off (take (unat n) (drop (unat pos - 1) data)) (uds_tx_buf i)))
      = take (unat n) (drop (unat pos - 1) data)"
    using assms(6) take_drop_buf_put [of off "take (unat n) (drop (unat pos - 1) data)" "uds_tx_buf i"] l by simp
  have dm': "dm' = dm\<lparr>dyn_did := did,
      entries := (d\<lparr>source_did := src, position := pos, slice_length := n\<rparr>) # ds, entry_count := 1\<rparr>"
    using define_effect [of send nrc did src pos n x dm j] assms(7) by (simp add: d)
  show ?thesis
    using assms(2-6,8) t l s
    by (auto simp: dm' uds_read_dynamic_did_payload_def Let_def slice_in_buf_def)
qed

theorem dynamic_did_roundtrip_witness:
  "take 2 (drop 3 (uds_tx_buf (snd (snd (uds_read_dynamic_did_payload (quiet_env (did_hooks [10, 20, 30, 40])) 0xF300 3 0
     (fst (uds_handle_define_dynamic_did Uds_send_response Uds_send_nrc (define_request 0xF300 0x1234 2 2 0) 9
        (dyn_map_0, io_0 kconfig_default))) (io_0 kconfig_default)))))) = [20, 30]"
proof -
  define p where "p = uds_handle_define_dynamic_did Uds_send_response Uds_send_nrc
    (define_request 0xF300 0x1234 2 2 0) 9 (dyn_map_0, io_0 kconfig_default)"
  define q where "q = uds_read_dynamic_did_payload (quiet_env (did_hooks [10, 20, 30, 40])) 0xF300 3 0 (fst p)
    (io_0 kconfig_default)"
  have "5 \<le> length (uds_tx_buf (io_0 kconfig_default))" by (simp add: io_0_def kconfig_default_def)
  then show ?thesis
    using dynamic_did_roundtrip [where dm = dyn_map_0 and e = "quiet_env (did_hooks [10, 20, 30, 40])" and src = "0x1234"
      and data = "[10, 20, 30, 40]" and pos = 2 and n = 2 and off = 3 and i = "io_0 kconfig_default" and did = "0xF300"
      and x = 0 and send = Uds_send_response and nrc = Uds_send_nrc and j = "io_0 kconfig_default" and k = 0
      and dm' = "fst p" and j' = "snd p" and ret = "fst q" and m = "fst (snd q)" and i' = "snd (snd q)"]
    by (simp add: dyn_map_0_def did_hooks_def p_def q_def)
qed

text \<open>
  C38: a definition whose position is 0 or whose slice ends behind the 64 bytes of the source buffer is
  accepted, and reading it accesses memory outside that buffer.
\<close>

theorem dynamic_did_reads_outside:
  fixes x :: u8
  assumes "length (entries dm) = 4" "fst (uds_app_read_did (app e) (trace i) src 0 64) = 0"
    and "unat pos = 0 \<or> 64 < unat pos - 1 + unat n"
  shows "mem_fault (snd (snd (uds_read_dynamic_did_payload e did off k
    (fst (uds_handle_define_dynamic_did send nrc (define_request did src pos n x) 9 (dm, j))) i)))"
proof -
  obtain d ds where d: "entries dm = d # ds" using assms(1) by (cases "entries dm") auto
  show ?thesis
    using assms(2,3)
    by (auto simp: define_effect d uds_read_dynamic_did_payload_def Let_def slice_in_buf_def case_prod_beta)
qed

theorem dynamic_did_reads_outside_witness:
  "mem_fault (snd (snd (uds_read_dynamic_did_payload (quiet_env (did_hooks [1])) 0xF300 3 0
     (fst (uds_handle_define_dynamic_did Uds_send_response Uds_send_nrc (define_request 0xF300 0x1234 60 255 0) 9
        (dyn_map_0, io_0 kconfig_default))) (io_0 kconfig_default))))"
  by (rule dynamic_did_reads_outside) (simp_all add: dyn_map_0_def did_hooks_def)

end
