(* ===== verification/Uds_Periodic.thy ===== *)
theory Uds_Periodic
  imports Uds_Service
begin

text \<open>
  Service 0x2A, \<open>src/uds_periodic.c\<close>: the list of periodic identifiers and the thread that samples
  them every 10 ms. The state holds the file's static variables and the thread's own stack
  variables, which live as long as the thread. C leaves the latter uninitialised; they start as zeros here, which
  only a hook that reports more bytes than it stores, or none at all, can make visible.
\<close>

record periodic_state =
  active_periodic_dids :: "u8 list"
  active_did_count :: u8
  periodic_send_cb :: "send_cb option"
  periodic_tx_buf :: "u8 list"
  data_len :: nat

definition periodic_state_0 :: periodic_state where
  "periodic_state_0 =
     \<lparr>active_periodic_dids = replicate 5 0, active_did_count = 0, periodic_send_cb = None,
      periodic_tx_buf = replicate 16 0, data_len = 0\<rparr>"

text \<open>The inner loop of the thread, over the indices of the list.\<close>

fun sample_dids :: "env \<Rightarrow> send_cb \<Rightarrow> nat list \<Rightarrow> periodic_state \<times> io \<Rightarrow> periodic_state \<times> io" where
  "sample_dids e send [] (ps, i) = (ps, i)"
| "sample_dids e send (k # ks) (ps, i) =
     (let did = active_periodic_dids ps ! k;
          buf = buf_put 0 [0x2A] (periodic_tx_buf ps);
          buf = buf_put 1 [did] buf;
          (ret, data, n) = uds_app_get_periodic_did (app e) (trace i) did (data_len ps);
          i = fault_if (2 + length data > length buf) (emit (App_get_periodic_did did) i);
          buf = buf_put 2 data buf;
          i = (if ret = 0 then call_send send buf (2 + n) i else i)
      in sample_dids e send ks (ps\<lparr>periodic_tx_buf := buf, data_len := n\<rparr>, i))"

text \<open>One round of \<open>for (;;)\<close>.\<close>

definition uds_periodic_thread_round :: "env \<Rightarrow> periodic_state \<times> io \<Rightarrow> periodic_state \<times> io" where
  "uds_periodic_thread_round e = (\<lambda>(ps, i).
     (let i = emit (K_msleep 10) i in
      case periodic_send_cb ps of
        None \<Rightarrow> (ps, i)
      | Some send \<Rightarrow>
          if active_did_count ps = 0 then (ps, i)
          else sample_dids e send [0..<unat (active_did_count ps)] (ps, i)))"

definition uds_handle_periodic_request ::
    "send_cb \<Rightarrow> nrc_cb \<Rightarrow> u8 list \<Rightarrow> nat \<Rightarrow> periodic_state \<times> io \<Rightarrow> periodic_state \<times> io" where
  "uds_handle_periodic_request send nrc req len = (\<lambda>(ps, i).
     (let sid = req ! 0;
          ps = ps\<lparr>periodic_send_cb := Some send\<rparr>
      in if len < 3
         then (ps, call_nrc nrc sid UDS_NRC_INCORRECT_LENGTH_OR_INVALID_FORMAT i) else
         (let transmission_mode = req ! 1 in
          if transmission_mode = 0x04
          then (ps\<lparr>active_did_count := 0\<rparr>, call_send send [0x6A, transmission_mode] 2 i)
          else if transmission_mode = 0x01 then
            (if active_did_count ps \<ge> 5
             then (ps, call_nrc nrc sid UDS_NRC_REQUEST_OUT_OF_RANGE i)
             else
               (ps\<lparr>active_periodic_dids :=
                     (active_periodic_dids ps)[unat (active_did_count ps) := req ! 2],
                   active_did_count := active_did_count ps + 1\<rparr>,
                call_send send [0x6A, transmission_mode, req ! 2] 3 i))
          else (ps, i))))"

section \<open>Contract\<close>

interpretation per: service "uds_handle_periodic_request send nrc" "0x2A" for send nrc
proof (unfold_locales, goal_cases)
  case 1 then show ?case by (simp add: uds_handle_periodic_request_def Let_def served_intros)
next
  case (2 len req p) then show ?case
    by (cases p) (simp add: uds_handle_periodic_request_def Let_def cong: if_cong)
qed

section \<open>The list of identifiers\<close>

definition periodic_inv :: "periodic_state \<Rightarrow> bool" where
  "periodic_inv ps \<longleftrightarrow>
     length (active_periodic_dids ps) = 5 \<and> unat (active_did_count ps) \<le> 5 \<and>
     length (periodic_tx_buf ps) = 16"

text \<open>The identifiers currently sampled.\<close>

definition registered :: "periodic_state \<Rightarrow> u8 list" where
  "registered ps = take (unat (active_did_count ps)) (active_periodic_dids ps)"

lemma periodic_inv_0 [simp]: "periodic_inv periodic_state_0"
  by (simp add: periodic_inv_def periodic_state_0_def)

lemma count_less_5: "\<not> 5 \<le> (k :: u8) \<Longrightarrow> unat k < 5 \<and> unat (k + 1) = Suc (unat k)"
proof -
  assume "\<not> 5 \<le> k"
  then have *: "unat k < 5" by (simp add: word_le_nat_alt not_le)
  then have "unat (k + 1) = Suc (unat k)"
    by (simp add: unat_word_ariths)
  with * show ?thesis by simp
qed

lemma periodic_inv_handle:
  "periodic_inv ps \<Longrightarrow> periodic_inv (fst (uds_handle_periodic_request send nrc req len (ps, i)))"
  using count_less_5 [of "active_did_count ps"]
  by (auto simp: uds_handle_periodic_request_def periodic_inv_def Let_def)

lemma registered_handle:
  assumes "periodic_inv ps"
  shows "registered (fst (uds_handle_periodic_request send nrc req len (ps, i))) =
    (if 3 \<le> len \<and> req ! 1 = 0x04 then []
     else if 3 \<le> len \<and> req ! 1 = 0x01 \<and> length (registered ps) < 5 then registered ps @ [req ! 2]
     else registered ps)"
proof -
  have l: "length (registered ps) = unat (active_did_count ps)"
    using assms by (simp add: registered_def periodic_inv_def)
  have c: "5 \<le> active_did_count ps \<longleftrightarrow> \<not> unat (active_did_count ps) < 5"
    by (simp add: word_le_nat_alt not_less)
  have t: "take (Suc n) (xs[n := v]) = take n xs @ [v]" if "n < length xs" for n v and xs :: "u8 list"
    using that by (simp add: take_Suc_conv_app_nth)
  show ?thesis
    using assms count_less_5 [of "active_did_count ps"] l
    by (auto simp: uds_handle_periodic_request_def Let_def registered_def c t periodic_inv_def not_less)
qed

fun periodic_event :: "event \<Rightarrow> bool" where
  "periodic_event (App_get_periodic_did d) = True"
| "periodic_event (K_msleep n) = True"
| "periodic_event (Isotp_send f) = (f \<noteq> [] \<and> hd f = 0x2A)"
| "periodic_event _ = False"

section \<open>Sampling\<close>

text \<open>What a round of the thread may call, and what it leaves alone.\<close>

definition sampled :: "periodic_state \<times> io \<Rightarrow> periodic_state \<times> io \<Rightarrow> bool" where
  "sampled p q \<longleftrightarrow>
     active_periodic_dids (fst q) = active_periodic_dids (fst p) \<and>
     active_did_count (fst q) = active_did_count (fst p) \<and>
     periodic_send_cb (fst q) = periodic_send_cb (fst p) \<and>
     length (periodic_tx_buf (fst q)) = length (periodic_tx_buf (fst p)) \<and>
     current_msg_addressing (snd q) = current_msg_addressing (snd p) \<and>
     uds_tx_buf (snd q) = uds_tx_buf (snd p) \<and>
     (mem_fault (snd p) \<longrightarrow> mem_fault (snd q)) \<and>
     grows (snd p) (snd q) \<and> (\<forall>ev \<in> set (new_events (snd p) (snd q)). periodic_event ev)"

lemma sampled_refl [simp]: "sampled p p"
  by (simp add: sampled_def)

lemma sampled_trans: "sampled p q \<Longrightarrow> sampled q r \<Longrightarrow> sampled p r"
  using grows_trans [of "snd p" "snd q" "snd r"] new_events_trans [of "snd p" "snd q" "snd r"]
  by (auto simp: sampled_def)

text \<open>One sample, written out.\<close>

definition sample_one :: "env \<Rightarrow> nat \<Rightarrow> periodic_state \<times> io \<Rightarrow> periodic_state \<times> io" where
  "sample_one e k = (\<lambda>(ps, i). sample_dids e Uds_send_response [k] (ps, i))"

lemma sample_dids_Cons:
  "sample_dids e send (k # ks) p = sample_dids e send ks (sample_one e k p)"
  by (cases p; cases send) (simp add: sample_one_def Let_def case_prod_beta)

lemma buf_head:
  assumes "2 \<le> length buf"
  shows "take (Suc (Suc n)) (buf_put 2 data (buf_put (Suc 0) [d] (buf_put 0 [h] buf)))
    = h # d # take n (drop 2 (buf_put 2 data buf))"
proof -
  have "\<exists>x y zs. buf = x # y # zs"
    using assms by (auto simp: Suc_le_length_iff numeral_2_eq_2)
  then obtain x y zs where "buf = x # y # zs" by blast
  then show ?thesis
    by (simp add: numeral_2_eq_2 buf_put_Cons buf_put_0_Cons)
qed

lemma sampled_one:
  assumes "length (periodic_tx_buf (fst p)) = 16"
  shows "sampled p (sample_one e k p)"
proof -
  obtain ps i where p: "p = (ps, i)" by fastforce
  obtain ret data n where h: "uds_app_get_periodic_did (app e) (trace i) (active_periodic_dids ps ! k)
      (data_len ps) = (ret, data, n)" by (metis prod_cases3)
  define d where "d = active_periodic_dids ps ! k"
  define evs where "evs = (if ret = 0 then [Isotp_send (0x2A # d # take n (drop 2 (buf_put 2 data (periodic_tx_buf ps))))] else [])
     @ [App_get_periodic_did d]"
  have t: "trace (snd (sample_one e k p)) = evs @ trace i"
    using assms h by (simp add: sample_one_def p evs_def Let_def buf_head d_def)
  then have n: "new_events i (snd (sample_one e k p)) = evs" "grows i (snd (sample_one e k p))"
    by (rule new_events_eq, rule growsI)
  have "\<forall>ev \<in> set evs. periodic_event ev"
    by (simp add: evs_def)
  then show ?thesis
    unfolding sampled_def using n h by (simp add: p) (simp add: sample_one_def Let_def)
qed
 
lemma sampled_dids: "length (periodic_tx_buf (fst p)) = 16 \<Longrightarrow> sampled p (sample_dids e send ks p)"
proof (induction ks arbitrary: p)
  case Nil
  then show ?case by (cases p) simp
next
  case (Cons k ks)
  have s: "sampled p (sample_one e k p)" by (rule sampled_one [OF Cons.prems])
  then have "length (periodic_tx_buf (fst (sample_one e k p))) = 16"
    using Cons.prems by (simp add: sampled_def)
  from sampled_trans [OF s Cons.IH [OF this]] show ?case by (simp add: sample_dids_Cons)
qed

lemma sampled_round:
  assumes "length (periodic_tx_buf (fst p)) = 16"
  shows "sampled p (uds_periodic_thread_round e p)"
proof -
  obtain ps i where p: "p = (ps, i)" by fastforce
  have m: "sampled p (ps, emit (K_msleep 10) i)"
    using new_events_eq [of "emit (K_msleep 10) i" "[K_msleep 10]" i] growsI [of "emit (K_msleep 10) i" "[K_msleep 10]" i]
    by (simp add: sampled_def p)
  have "sampled (ps, emit (K_msleep 10) i) (sample_dids e send ks (ps, emit (K_msleep 10) i))" for send ks
    using assms by (intro sampled_dids) (simp add: p)
  then show ?thesis
    using m sampled_trans [OF m] by (auto simp: uds_periodic_thread_round_def p Let_def split: option.split)
qed


text \<open>The list a series of requests leaves.\<close>

fun run_periodic :: "(u8 list \<times> nat) list \<Rightarrow> periodic_state \<times> io \<Rightarrow> periodic_state \<times> io" where
  "run_periodic [] p = p"
| "run_periodic ((req, len) # rs) p =
     run_periodic rs (uds_handle_periodic_request Uds_send_response Uds_send_nrc req len p)"

fun list_spec :: "u8 list \<times> nat \<Rightarrow> u8 list \<Rightarrow> u8 list" where
  "list_spec (req, len) ds =
     (if 3 \<le> len \<and> req ! 1 = 0x04 then []
      else if 3 \<le> len \<and> req ! 1 = 0x01 \<and> length ds < 5 then ds @ [req ! 2] else ds)"

lemma registered_0: "registered periodic_state_0 = []"
  by (simp add: registered_def periodic_state_0_def)


section \<open>Properties\<close>

text \<open>
  C28: a series of 0x2A requests maintains a list of at most five identifiers: mode 1 appends, mode 4
  empties, everything else leaves it.
\<close>

theorem periodic_list_refines:
  assumes "periodic_inv (fst p)"
  shows "registered (fst (run_periodic reqs p)) = fold list_spec reqs (registered (fst p)) \<and>
    length (registered (fst (run_periodic reqs p))) \<le> 5 \<and> periodic_inv (fst (run_periodic reqs p))"
  using assms
proof (induction reqs arbitrary: p)
  case Nil
  then show ?case by (simp add: registered_def periodic_inv_def)
next
  case (Cons r rs)
  obtain req len where r: "r = (req, len)" by fastforce
  obtain ps i where p: "p = (ps, i)" by fastforce
  define q where "q = uds_handle_periodic_request Uds_send_response Uds_send_nrc req len p"
  have "periodic_inv (fst q)" "registered (fst q) = list_spec r (registered (fst p))"
    using Cons.prems periodic_inv_handle [of ps] registered_handle [of ps] by (simp_all add: q_def r p)
  with Cons.IH [of q] show ?case
    unfolding r run_periodic.simps fold_simps(2) q_def [symmetric] by metis
qed

theorem periodic_list_refines_witness:
  "registered (fst (run_periodic [([0x2A, 1, 7], 3), ([0x2A, 1, 8], 3), ([0x2A, 9, 9], 3)]
     (periodic_state_0, io_0 kconfig_default))) = [7, 8]"
  using periodic_list_refines [of "(periodic_state_0, io_0 kconfig_default)"
      "[([0x2A, 1, 7], 3), ([0x2A, 1, 8], 3), ([0x2A, 9, 9], 3)]"] registered_0
  by (simp del: run_periodic.simps)



end
