(* ===== verification/Uds_Data_Storage.thy ===== *)
theory Uds_Data_Storage
  imports Uds_Service
begin

text \<open>
  \<open>src/uds_data_storage.c\<close>: the vehicle identification number, cached in RAM and persisted
  through the application. No other file of the module calls it; the application does.
\<close>

record storage_state =
  vehicle_vin :: "u8 list"

definition NVS_VIN_PARAM_ID :: u16 where [simp]: "NVS_VIN_PARAM_ID = 0x0200"

text \<open>The bytes of the string \<open>ZEPHYRISANRTOS123\<close>.\<close>

definition default_vin :: "u8 list" where
  "default_vin =
     [0x5A, 0x45, 0x50, 0x48, 0x59, 0x52, 0x49, 0x53, 0x41, 0x4E, 0x52, 0x54, 0x4F, 0x53,
      0x31, 0x32, 0x33]"

definition storage_state_0 :: storage_state where
  "storage_state_0 = \<lparr>vehicle_vin = replicate VIN_SIZE 0\<rparr>"

definition uds_data_storage_init :: "env \<Rightarrow> storage_state \<times> io \<Rightarrow> storage_state \<times> io" where
  "uds_data_storage_init e = (\<lambda>(st, i).
     (let st = st\<lparr>vehicle_vin := default_vin\<rparr>;
          fs = uds_app_get_nvs_context (app e) (trace i);
          i = emit App_get_nvs_context i
      in case fs of
           None \<Rightarrow> (st, i)
         | Some f \<Rightarrow>
             (let (ret, vin, i) = nvs_read_into e f NVS_VIN_PARAM_ID (vehicle_vin st) i
              in (st\<lparr>vehicle_vin := vin\<rparr>, i))))"

definition uds_data_storage_get_vin :: "storage_state \<Rightarrow> u8 list" where
  "uds_data_storage_get_vin st = vehicle_vin st"

definition uds_data_storage_set_vin ::
    "env \<Rightarrow> u8 list option \<Rightarrow> nat \<Rightarrow> storage_state \<times> io \<Rightarrow> int \<times> storage_state \<times> io" where
  "uds_data_storage_set_vin e new_vin len = (\<lambda>(st, i).
     (case new_vin of
        None \<Rightarrow> (- EINVAL, st, i)
      | Some p \<Rightarrow>
          if len \<noteq> VIN_SIZE then (- EINVAL, st, i) else
          (let fs = uds_app_get_nvs_context (app e) (trace i);
               i = emit App_get_nvs_context i
           in case fs of
                None \<Rightarrow> (- ENXIO, st, i)
              | Some f \<Rightarrow>
                  (let vin = take VIN_SIZE p;
                       ret = uds_app_write_persistent_data (app e) (trace i) f NVS_VIN_PARAM_ID vin;
                       i = fault_if (length p < VIN_SIZE)
                             (emit (App_write_persistent_data f NVS_VIN_PARAM_ID vin) i)
                   in if ret \<noteq> 0 then (- EIO, st, i)
                      else (0, st\<lparr>vehicle_vin := vin\<rparr>, i)))))"

definition vin_hooks :: app_hooks where
  "vin_hooks = weak_hooks\<lparr>uds_app_get_nvs_context := \<lambda>evs. Some (App_fs 0),
     uds_app_write_persistent_data := \<lambda>evs f k d. 0\<rparr>"

section \<open>Properties\<close>

text \<open>
  C30: a number that was set successfully is the one read back, it was handed to the application for storing, and
  a restart that finds it in NVS reads back the same number.
\<close>

theorem vin_survives_restart:
  assumes "uds_data_storage_set_vin e (Some vin) 17 (st, i) = (0, st1, i1)" "length vin = 17"
    and "uds_app_get_nvs_context (app e') (trace i2) = Some f"
    and "nvs_read e' (App_get_nvs_context # trace i2) f NVS_VIN_PARAM_ID 17 = (17, vin)"
  shows "uds_data_storage_get_vin st1 = vin \<and>
    uds_data_storage_get_vin (fst (uds_data_storage_init e' (st2, i2))) = vin \<and>
    (\<exists>g. App_write_persistent_data g NVS_VIN_PARAM_ID vin \<in> set (trace i1))"
proof -
  have "st1 = st\<lparr>vehicle_vin := vin\<rparr>" "\<exists>g. App_write_persistent_data g NVS_VIN_PARAM_ID vin \<in> set (trace i1)"
    using assms(1,2) by (auto simp: uds_data_storage_set_vin_def Let_def split: option.splits if_splits)
  moreover have "length default_vin = 17" by (simp add: default_vin_def)
  then have "fst (uds_data_storage_init e' (st2, i2)) = st2\<lparr>vehicle_vin := vin\<rparr>"
    using assms(2-4) by (simp add: uds_data_storage_init_def Let_def nvs_read_into_def buf_put_def)
  ultimately show ?thesis by (simp add: uds_data_storage_get_vin_def)
qed

theorem vin_survives_restart_witness:
  "uds_data_storage_get_vin (fst (uds_data_storage_init
     ((quiet_env vin_hooks)\<lparr>nvs_read := \<lambda>evs f k n. (17, replicate 17 0x41)\<rparr>) (storage_state_0, io_0 kconfig_default)))
   = replicate 17 0x41"
proof -
  define h where "h = quiet_env vin_hooks"
  define r where "r = uds_data_storage_set_vin h (Some (replicate 17 0x41)) 17 (storage_state_0, io_0 kconfig_default)"
  have "r = (0, fst (snd r), snd (snd r))"
    by (simp add: r_def h_def uds_data_storage_set_vin_def vin_hooks_def Let_def)
  then show ?thesis
    using vin_survives_restart [of h "replicate 17 0x41" storage_state_0 "io_0 kconfig_default" "fst (snd r)" "snd (snd r)"
      "(quiet_env vin_hooks)\<lparr>nvs_read := \<lambda>evs f k n. (17, replicate 17 0x41)\<rparr>" "io_0 kconfig_default" "App_fs 0" storage_state_0]
    by (simp add: r_def vin_hooks_def)
qed

end
