(* ===== verification/Uds_Server.thy ===== *)
theory Uds_Server
  imports Uds_Reset Uds_Routine Uds_Clear_Dtc Uds_Read_Dtc Uds_Write_Did Uds_Iocontrol
    Uds_Flash_Pipeline Uds_Dynamic_Did Uds_Periodic Uds_Data_Storage
begin

text \<open>
  \<open>src/uds_server.c\<close>: the state of the whole module, the request dispatcher, the receive thread
  and the initialisation.
\<close>

section \<open>State\<close>

record uds_state =
  io_st :: io
  session_st :: session_state
  security_st :: security_state
  reset_st :: reset_state
  routine_st :: routine_state
  clear_st :: clear_state
  flash_st :: flash_state
  dyn_st :: dynamic_did_map
  periodic_st :: periodic_state
  uds_rx_buf :: "u8 list"

text \<open>Running a component's operation on its part of the state and on the shared input/output state.\<close>

definition on_io :: "(io \<Rightarrow> io) \<Rightarrow> 'a uds_state_scheme \<Rightarrow> 'a uds_state_scheme" where
  "on_io f s = s\<lparr>io_st := f (io_st s)\<rparr>"

definition on_session ::
    "(session_state \<times> io \<Rightarrow> session_state \<times> io) \<Rightarrow> 'a uds_state_scheme \<Rightarrow> 'a uds_state_scheme" where
  "on_session f s = (let (x, i) = f (session_st s, io_st s) in s\<lparr>session_st := x, io_st := i\<rparr>)"

definition on_security ::
    "(security_state \<times> io \<Rightarrow> security_state \<times> io) \<Rightarrow> 'a uds_state_scheme \<Rightarrow> 'a uds_state_scheme" where
  "on_security f s = (let (x, i) = f (security_st s, io_st s) in s\<lparr>security_st := x, io_st := i\<rparr>)"

definition on_reset ::
    "(reset_state \<times> io \<Rightarrow> reset_state \<times> io) \<Rightarrow> 'a uds_state_scheme \<Rightarrow> 'a uds_state_scheme" where
  "on_reset f s = (let (x, i) = f (reset_st s, io_st s) in s\<lparr>reset_st := x, io_st := i\<rparr>)"

definition on_routine ::
    "(routine_state \<times> io \<Rightarrow> routine_state \<times> io) \<Rightarrow> 'a uds_state_scheme \<Rightarrow> 'a uds_state_scheme" where
  "on_routine f s = (let (x, i) = f (routine_st s, io_st s) in s\<lparr>routine_st := x, io_st := i\<rparr>)"

definition on_clear ::
    "(clear_state \<times> io \<Rightarrow> clear_state \<times> io) \<Rightarrow> 'a uds_state_scheme \<Rightarrow> 'a uds_state_scheme" where
  "on_clear f s = (let (x, i) = f (clear_st s, io_st s) in s\<lparr>clear_st := x, io_st := i\<rparr>)"

definition on_flash ::
    "(flash_state \<times> io \<Rightarrow> flash_state \<times> io) \<Rightarrow> 'a uds_state_scheme \<Rightarrow> 'a uds_state_scheme" where
  "on_flash f s = (let (x, i) = f (flash_st s, io_st s) in s\<lparr>flash_st := x, io_st := i\<rparr>)"

definition on_dyn ::
    "(dynamic_did_map \<times> io \<Rightarrow> dynamic_did_map \<times> io) \<Rightarrow> 'a uds_state_scheme \<Rightarrow> 'a uds_state_scheme" where
  "on_dyn f s = (let (x, i) = f (dyn_st s, io_st s) in s\<lparr>dyn_st := x, io_st := i\<rparr>)"

definition on_periodic ::
    "(periodic_state \<times> io \<Rightarrow> periodic_state \<times> io) \<Rightarrow> 'a uds_state_scheme \<Rightarrow> 'a uds_state_scheme" where
  "on_periodic f s = (let (x, i) = f (periodic_st s, io_st s) in s\<lparr>periodic_st := x, io_st := i\<rparr>)"

lemmas on_defs =
  on_io_def on_session_def on_security_def on_reset_def on_routine_def on_clear_def on_flash_def
  on_dyn_def on_periodic_def

section \<open>The services the dispatcher implements itself\<close>

text \<open>Case 0x22, ReadDataByIdentifier.\<close>

definition uds_read_did_case ::
    "kconfig \<Rightarrow> env \<Rightarrow> dynamic_did_map \<Rightarrow> u8 list \<Rightarrow> nat \<Rightarrow> io \<Rightarrow> io" where
  "uds_read_did_case c e dm req len i =
     (let sid = req ! 0 in
      if len < 3 then uds_send_nrc sid UDS_NRC_INCORRECT_LENGTH_OR_INVALID_FORMAT i else
      (let read_did = be16 (req ! 1) (req ! 2);
           head = (\<lambda>i. tx_put 2 [req ! 2] (tx_put 1 [req ! 1] (tx_put 0 [sid + 0x40] i)));
           (d_ret, d_len, i) = uds_read_dynamic_did_payload e read_did 3 0 dm i
       in if d_ret = 0 then send_tx Uds_send_response (3 + d_len) (head i) else
          (let max_len = CONFIG_UDS_BUFF_SIZE c - 3;
               (r_ret, data, d_len) = uds_app_read_did (app e) (trace i) read_did d_len max_len;
               i = tx_put 3 data (emit (App_read_did read_did max_len) i)
           in if r_ret = 0 then send_tx Uds_send_response (3 + d_len) (head i)
              else if r_ret = - ENOMEM then uds_send_nrc sid UDS_NRC_RESPONSE_PENDING i
              else uds_send_nrc sid UDS_NRC_REQUEST_OUT_OF_RANGE i)))"

text \<open>Case 0x86, ResponseOnEvent, which only acknowledges.\<close>

definition uds_event_case :: "u8 list \<Rightarrow> nat \<Rightarrow> io \<Rightarrow> io" where
  "uds_event_case req len i =
     (let sid = req ! 0 in
      if len < 3 then uds_send_nrc sid UDS_NRC_INCORRECT_LENGTH_OR_INVALID_FORMAT i
      else send_tx Uds_send_response 3
             (tx_put 2 [req ! 2] (tx_put 1 [req ! 1] (tx_put 0 [sid + 0x40] i))))"

text \<open>Case 0x3E, TesterPresent.\<close>

definition uds_tester_present_case :: "u8 list \<Rightarrow> nat \<Rightarrow> io \<Rightarrow> io" where
  "uds_tester_present_case req len i =
     (let sid = req ! 0 in
      if len < 2 then uds_send_nrc sid UDS_NRC_INCORRECT_LENGTH_OR_INVALID_FORMAT i
      else if req ! 1 AND 0x80 = 0
      then send_tx Uds_send_response 2
             (tx_put 1 [req ! 1 AND 0x7F] (tx_put 0 [sid + 0x40] i))
      else i)"

text \<open>Case 0x10, DiagnosticSessionControl.\<close>

definition uds_session_case ::
    "kconfig \<Rightarrow> u8 list \<Rightarrow> nat \<Rightarrow> 'a uds_state_scheme \<Rightarrow> 'a uds_state_scheme" where
  "uds_session_case c req len s =
     (let sid = req ! 0 in
      if len < 2
      then on_io (uds_send_nrc sid UDS_NRC_INCORRECT_LENGTH_OR_INVALID_FORMAT) s else
      (let req_sess = req ! 1 in
       if req_sess \<noteq> 0x01 \<and> req_sess \<noteq> 0x02 \<and> req_sess \<noteq> 0x03
       then on_io (uds_send_nrc sid UDS_NRC_SUB_FUNCTION_NOT_SUPPORTED) s else
       (let s = s\<lparr>security_st := uds_security_reset_lock (security_st s)\<rparr>;
            s = on_session (uds_session_set c (uds_session_type_of req_sess)) s
        in on_io (\<lambda>i. send_tx Uds_send_response 2
                        (tx_put 1 [req_sess] (tx_put 0 [sid + 0x40] i))) s)))"

section \<open>The dispatcher\<close>

definition uds_dispatch ::
    "kconfig \<Rightarrow> env \<Rightarrow> u8 list \<Rightarrow> nat \<Rightarrow> uds_addressing \<Rightarrow>
     'a uds_state_scheme \<Rightarrow> 'a uds_state_scheme" where
  "uds_dispatch c e req len addr_type s =
     (let sid = req ! 0;
          snd_cb = Uds_send_response;
          nrc = Uds_send_nrc;
          physical_only = (\<lambda>f. if addr_type = UDS_ADDR_FUNCTIONAL
            then on_io (uds_send_nrc sid UDS_NRC_CONDITIONS_NOT_CORRECT) else f)
      in if sid = 0x10 then uds_session_case c req len s
         else if sid = 0x11 then on_reset (uds_reset_handle snd_cb nrc req len) s
         else if sid = 0x14 then on_clear (uds_clear_dtc_handle e snd_cb nrc req len) s
         else if sid = 0x19 then on_io (uds_read_dtc_handle c e snd_cb nrc req len) s
         else if sid = 0x22 then on_io (uds_read_did_case c e (dyn_st s) req len) s
         else if sid = 0x27 then
           physical_only (on_security (uds_security_handle_request c e snd_cb nrc req len)) s
         else if sid = 0x2E then
           on_io (uds_write_did_handle e (session_st s) (security_st s) snd_cb nrc req len) s
         else if sid = 0x2A then on_periodic (uds_handle_periodic_request snd_cb nrc req len) s
         else if sid = 0x2C then on_dyn (uds_handle_define_dynamic_did snd_cb nrc req len) s
         else if sid = 0x2F then
           physical_only
             (on_io (uds_handle_io_control e (session_st s) (security_st s) snd_cb nrc req len)) s
         else if sid = 0x31 then
           on_routine (uds_routine_handle_control e (session_st s) snd_cb nrc req len) s
         else if sid = 0x34 then
           physical_only
             (on_flash (uds_handle_request_download c e (session_st s) (security_st s)
                          snd_cb nrc req len)) s
         else if sid = 0x36 then
           physical_only (on_flash (uds_handle_transfer_data e snd_cb nrc req len)) s
         else if sid = 0x37 then
           physical_only (on_flash (uds_handle_request_transfer_exit snd_cb nrc req len)) s
         else if sid = 0x86 then on_io (uds_event_case req len) s
         else if sid = 0x3E then on_io (uds_tester_present_case req len) s
         else on_io (uds_send_nrc sid UDS_NRC_SERVICE_NOT_SUPPORTED) s)"

definition uds_process_request ::
    "kconfig \<Rightarrow> env \<Rightarrow> u8 list \<Rightarrow> nat \<Rightarrow> uds_addressing \<Rightarrow>
     'a uds_state_scheme \<Rightarrow> 'a uds_state_scheme" where
  "uds_process_request c e req len addr_type s =
     (if len = 0 then s else
      (let s = on_io (\<lambda>i. i\<lparr>current_msg_addressing := addr_type\<rparr>) s;
           s = on_io (uds_session_refresh_timer c (session_st s)) s
       in uds_dispatch c e req len addr_type s))"

section \<open>The receive thread and the initialisation\<close>

definition UDS_RX_THREAD_STACK_SIZE :: nat where "UDS_RX_THREAD_STACK_SIZE = 2048"
definition UDS_RX_THREAD_PRIORITY :: int where "UDS_RX_THREAD_PRIORITY = 7"

text \<open>The links: requests arrive on two identifiers, both are answered on a third.\<close>

definition fc_opts :: isotp_fc_opts where
  "fc_opts = \<lparr>fc_bs = 8, fc_stmin = 10\<rparr>"

definition rx_link :: "kconfig \<Rightarrow> isotp_msg_id" where
  "rx_link c = \<lparr>std_id = CONFIG_UDS_CAN_RX_ID c, id_flags = 0, ext_addr = 0, id_dl = 8\<rparr>"

definition tx_link :: "kconfig \<Rightarrow> isotp_msg_id" where
  "tx_link c = \<lparr>std_id = CONFIG_UDS_CAN_TX_ID c, id_flags = 0, ext_addr = 0, id_dl = 8\<rparr>"

definition func_rx_link :: "kconfig \<Rightarrow> isotp_msg_id" where
  "func_rx_link c = \<lparr>std_id = CONFIG_UDS_CAN_FUNC_RX_ID c, id_flags = 0, ext_addr = 0, id_dl = 8\<rparr>"

text \<open>
  The two binds at the start of the thread. The value is false when the thread returns because one of them
  failed.
\<close>

definition uds_rx_thread_bind ::
    "kconfig \<Rightarrow> env \<Rightarrow> 'a uds_state_scheme \<Rightarrow> bool \<times> 'a uds_state_scheme" where
  "uds_rx_thread_bind c e s =
     (let r = isotp_bind e (trace (io_st s)) Rx_link;
          s = on_io (emit (Isotp_bind Rx_link (rx_link c) (tx_link c) fc_opts)) s
      in if r \<noteq> 0 then (False, s) else
         (let r = isotp_bind e (trace (io_st s)) Func_rx_link;
              s = on_io (emit (Isotp_bind Func_rx_link (func_rx_link c) (tx_link c) fc_opts)) s
          in (r = 0, s)))"

definition uds_rx_poll ::
    "kconfig \<Rightarrow> env \<Rightarrow> link \<Rightarrow> uds_addressing \<Rightarrow>
     'a uds_state_scheme \<Rightarrow> 'a uds_state_scheme" where
  "uds_rx_poll c e l addr_type s =
     (let n = length (uds_rx_buf s);
          (received_bytes, bs) = isotp_recv e (trace (io_st s)) l n;
          s = on_io (emit (Isotp_recv l n)) s;
          s = s\<lparr>uds_rx_buf := buf_put 0 (take n bs) (uds_rx_buf s)\<rparr>
      in if received_bytes \<ge> 0
         then uds_process_request c e (uds_rx_buf s) (nat received_bytes) addr_type s
         else s)"

text \<open>One round of \<open>for (;;)\<close>: the physical link is polled, then the functional one.\<close>

definition uds_rx_round ::
    "kconfig \<Rightarrow> env \<Rightarrow> 'a uds_state_scheme \<Rightarrow> 'a uds_state_scheme" where
  "uds_rx_round c e s =
     uds_rx_poll c e Func_rx_link UDS_ADDR_FUNCTIONAL
       (uds_rx_poll c e Rx_link UDS_ADDR_PHYSICAL s)"

definition uds_init ::
    "kconfig \<Rightarrow> env \<Rightarrow> 'a uds_state_scheme \<Rightarrow> int \<times> 'a uds_state_scheme" where
  "uds_init c e s =
     (let ready = device_is_ready e (trace (io_st s)) Can_dev;
          s = on_io (emit (Device_is_ready Can_dev)) s
      in if \<not> ready then (- ENODEV, s) else
      (let s = on_io (emit Can_start) s;
           s = on_session uds_session_init s;
           s = on_security (uds_security_init c e) s;
           s = on_io uds_routine_init s;
           s = on_io uds_reset_init s;
           s = on_io uds_clear_dtc_init s;
           s = s\<lparr>flash_st := uds_flash_pipeline_init (flash_st s)\<rparr>;
           s = on_io (emit (K_thread_create UDS_RX_THREAD_STACK_SIZE UDS_RX_THREAD_PRIORITY)) s
       in (0, s)))"

text \<open>The static initialisers of the whole module.\<close>

definition uds_state_0 :: "kconfig \<Rightarrow> uds_state" where
  "uds_state_0 c =
     \<lparr>io_st = io_0 c, session_st = session_state_0, security_st = security_state_0 c,
      reset_st = reset_state_0, routine_st = routine_state_0, clear_st = clear_state_0,
      flash_st = flash_state_0, dyn_st = dyn_map_0, periodic_st = periodic_state_0,
      uds_rx_buf = replicate (CONFIG_UDS_BUFF_SIZE c) 0\<rparr>"

section \<open>Contracts of the dispatcher's own services\<close>

interpretation rdd: service "stateless (uds_read_did_case c e dm)" "0x22" for c e dm
proof (unfold_locales, goal_cases)
  case 1 then show ?case
    by (simp add: uds_read_did_case_def Let_def case_prod_beta served_intros)
next
  case (2 len req p) then show ?case
    by (simp add: stateless_def uds_read_did_case_def Let_def cong: if_cong)
qed

interpretation roe: service "stateless uds_event_case" "0x86"
proof (unfold_locales, goal_cases)
  case 1 then show ?case by (simp add: uds_event_case_def Let_def served_intros)
next
  case (2 len req p) then show ?case
    by (simp add: stateless_def uds_event_case_def Let_def cong: if_cong)
qed

interpretation tpr: service "stateless uds_tester_present_case" "0x3E"
proof (unfold_locales, goal_cases)
  case 1 then show ?case by (simp add: uds_tester_present_case_def Let_def served_intros)
next
  case (2 len req p) then show ?case
    by (simp add: stateless_def uds_tester_present_case_def Let_def cong: if_cong)
qed

lemma on_sel [simp]:
  "io_st (on_io f s) = f (io_st s)"
  "io_st (on_session g1 s) = snd (g1 (session_st s, io_st s))"
  "io_st (on_security g2 s) = snd (g2 (security_st s, io_st s))"
  "io_st (on_reset g3 s) = snd (g3 (reset_st s, io_st s))"
  "io_st (on_routine g4 s) = snd (g4 (routine_st s, io_st s))"
  "io_st (on_clear g5 s) = snd (g5 (clear_st s, io_st s))"
  "io_st (on_flash g6 s) = snd (g6 (flash_st s, io_st s))"
  "io_st (on_dyn g7 s) = snd (g7 (dyn_st s, io_st s))"
  "io_st (on_periodic g8 s) = snd (g8 (periodic_st s, io_st s))"
  by (simp_all add: on_defs case_prod_beta)

text \<open>Each operation changes its own component and the input/output state, and nothing else.\<close>

lemma on_own [simp]:
  "session_st (on_session g1 s) = fst (g1 (session_st s, io_st s))"
  "security_st (on_security g2 s) = fst (g2 (security_st s, io_st s))"
  "reset_st (on_reset g3 s) = fst (g3 (reset_st s, io_st s))"
  "routine_st (on_routine g4 s) = fst (g4 (routine_st s, io_st s))"
  "clear_st (on_clear g5 s) = fst (g5 (clear_st s, io_st s))"
  "flash_st (on_flash g6 s) = fst (g6 (flash_st s, io_st s))"
  "dyn_st (on_dyn g7 s) = fst (g7 (dyn_st s, io_st s))"
  "periodic_st (on_periodic g8 s) = fst (g8 (periodic_st s, io_st s))"
  by (simp_all add: on_defs case_prod_beta)

lemma on_other [simp]:
  "session_st (on_io f s) = session_st s"
  "security_st (on_io f s) = security_st s"
  "reset_st (on_io f s) = reset_st s"
  "routine_st (on_io f s) = routine_st s"
  "clear_st (on_io f s) = clear_st s"
  "flash_st (on_io f s) = flash_st s"
  "dyn_st (on_io f s) = dyn_st s"
  "periodic_st (on_io f s) = periodic_st s"
  "uds_rx_buf (on_io f s) = uds_rx_buf s"
  "uds_state.more (on_io f s) = uds_state.more s"
  "security_st (on_session g1 s) = security_st s"
  "reset_st (on_session g1 s) = reset_st s"
  "routine_st (on_session g1 s) = routine_st s"
  "clear_st (on_session g1 s) = clear_st s"
  "flash_st (on_session g1 s) = flash_st s"
  "dyn_st (on_session g1 s) = dyn_st s"
  "periodic_st (on_session g1 s) = periodic_st s"
  "uds_rx_buf (on_session g1 s) = uds_rx_buf s"
  "uds_state.more (on_session g1 s) = uds_state.more s"
  "session_st (on_security g2 s) = session_st s"
  "reset_st (on_security g2 s) = reset_st s"
  "routine_st (on_security g2 s) = routine_st s"
  "clear_st (on_security g2 s) = clear_st s"
  "flash_st (on_security g2 s) = flash_st s"
  "dyn_st (on_security g2 s) = dyn_st s"
  "periodic_st (on_security g2 s) = periodic_st s"
  "uds_rx_buf (on_security g2 s) = uds_rx_buf s"
  "uds_state.more (on_security g2 s) = uds_state.more s"
  "session_st (on_reset g3 s) = session_st s"
  "security_st (on_reset g3 s) = security_st s"
  "routine_st (on_reset g3 s) = routine_st s"
  "clear_st (on_reset g3 s) = clear_st s"
  "flash_st (on_reset g3 s) = flash_st s"
  "dyn_st (on_reset g3 s) = dyn_st s"
  "periodic_st (on_reset g3 s) = periodic_st s"
  "uds_rx_buf (on_reset g3 s) = uds_rx_buf s"
  "uds_state.more (on_reset g3 s) = uds_state.more s"
  "session_st (on_routine g4 s) = session_st s"
  "security_st (on_routine g4 s) = security_st s"
  "reset_st (on_routine g4 s) = reset_st s"
  "clear_st (on_routine g4 s) = clear_st s"
  "flash_st (on_routine g4 s) = flash_st s"
  "dyn_st (on_routine g4 s) = dyn_st s"
  "periodic_st (on_routine g4 s) = periodic_st s"
  "uds_rx_buf (on_routine g4 s) = uds_rx_buf s"
  "uds_state.more (on_routine g4 s) = uds_state.more s"
  "session_st (on_clear g5 s) = session_st s"
  "security_st (on_clear g5 s) = security_st s"
  "reset_st (on_clear g5 s) = reset_st s"
  "routine_st (on_clear g5 s) = routine_st s"
  "flash_st (on_clear g5 s) = flash_st s"
  "dyn_st (on_clear g5 s) = dyn_st s"
  "periodic_st (on_clear g5 s) = periodic_st s"
  "uds_rx_buf (on_clear g5 s) = uds_rx_buf s"
  "uds_state.more (on_clear g5 s) = uds_state.more s"
  "session_st (on_flash g6 s) = session_st s"
  "security_st (on_flash g6 s) = security_st s"
  "reset_st (on_flash g6 s) = reset_st s"
  "routine_st (on_flash g6 s) = routine_st s"
  "clear_st (on_flash g6 s) = clear_st s"
  "dyn_st (on_flash g6 s) = dyn_st s"
  "periodic_st (on_flash g6 s) = periodic_st s"
  "uds_rx_buf (on_flash g6 s) = uds_rx_buf s"
  "uds_state.more (on_flash g6 s) = uds_state.more s"
  "session_st (on_dyn g7 s) = session_st s"
  "security_st (on_dyn g7 s) = security_st s"
  "reset_st (on_dyn g7 s) = reset_st s"
  "routine_st (on_dyn g7 s) = routine_st s"
  "clear_st (on_dyn g7 s) = clear_st s"
  "flash_st (on_dyn g7 s) = flash_st s"
  "periodic_st (on_dyn g7 s) = periodic_st s"
  "uds_rx_buf (on_dyn g7 s) = uds_rx_buf s"
  "uds_state.more (on_dyn g7 s) = uds_state.more s"
  "session_st (on_periodic g8 s) = session_st s"
  "security_st (on_periodic g8 s) = security_st s"
  "reset_st (on_periodic g8 s) = reset_st s"
  "routine_st (on_periodic g8 s) = routine_st s"
  "clear_st (on_periodic g8 s) = clear_st s"
  "flash_st (on_periodic g8 s) = flash_st s"
  "dyn_st (on_periodic g8 s) = dyn_st s"
  "uds_rx_buf (on_periodic g8 s) = uds_rx_buf s"
  "uds_state.more (on_periodic g8 s) = uds_state.more s"
  by (simp_all add: on_defs case_prod_beta)

lemma session_case_served:
  assumes "uds_tx_buf (io_st s) \<noteq> []" "req ! 0 = 0x10"
  shows "served 0x10 (io_st s) (io_st (uds_session_case c req len s))"
  using assms
  by (simp add: uds_session_case_def Let_def served_intros uds_session_set_def case_prod_beta uds_session_refresh_timer_def)

section \<open>Every request gets at most one answer\<close>

lemma dispatch_served:
  assumes "uds_tx_buf (io_st s) \<noteq> []"
  shows "served (req ! 0) (io_st s) (io_st (uds_dispatch c e req len a s))"
  using assms
    rst.serves [of "io_st s" req] clr.serves [of "io_st s" req] rdt.serves [of "io_st s" req]
    rdd.serves [of "io_st s" req] sec.serves [of "io_st s" req] wdid.serves [of "io_st s" req]
    per.serves [of "io_st s" req] ddd.serves [of "io_st s" req] ioc.serves [of "io_st s" req]
    rou.serves [of "io_st s" req] rdl.serves [of "io_st s" req] trd.serves [of "io_st s" req]
    rte.serves [of "io_st s" req] roe.serves [of "io_st s" req] tpr.serves [of "io_st s" req]
    session_case_served [of s req c len]
  by (simp add: uds_dispatch_def Let_def served_intros)

text \<open>
  Before the dispatcher, \<open>uds_process_request\<close> records the addressing mode and restarts or stops the S3 timer.
\<close>

definition s3_event :: "kconfig \<Rightarrow> session_state \<Rightarrow> event" where
  "s3_event c ses =
     (if current_session ses \<noteq> UDS_SESSION_DEFAULT
      then K_timer_start S3_timer (CONFIG_UDS_S3_TIMEOUT_MS c) 0 else K_timer_stop S3_timer)"

lemma refresh_timer_eq: "uds_session_refresh_timer c ses i = emit (s3_event c ses) i"
  by (simp add: uds_session_refresh_timer_def s3_event_def)

lemma s3_event_not_send [simp]: "\<not> is_send (s3_event c ses)" "\<not> is_hook (s3_event c ses)"
  by (simp_all add: s3_event_def)

definition accepted :: "kconfig \<Rightarrow> uds_addressing \<Rightarrow> 'a uds_state_scheme \<Rightarrow> 'a uds_state_scheme" where
  "accepted c a s =
     s\<lparr>io_st := emit (s3_event c (session_st s)) ((io_st s)\<lparr>current_msg_addressing := a\<rparr>)\<rparr>"

lemma process_request_eq:
  "uds_process_request c e req len a s
     = (if len = 0 then s else uds_dispatch c e req len a (accepted c a s))"
  by (simp add: uds_process_request_def accepted_def on_io_def refresh_timer_eq Let_def)

lemma accepted_sel [simp]:
  "trace (io_st (accepted c a s)) = s3_event c (session_st s) # trace (io_st s)"
  "current_msg_addressing (io_st (accepted c a s)) = a"
  "uds_tx_buf (io_st (accepted c a s)) = uds_tx_buf (io_st s)"
  "mem_fault (io_st (accepted c a s)) = mem_fault (io_st s)"
  "session_st (accepted c a s) = session_st s"
  "security_st (accepted c a s) = security_st s"
  "reset_st (accepted c a s) = reset_st s"
  "routine_st (accepted c a s) = routine_st s"
  "clear_st (accepted c a s) = clear_st s"
  "flash_st (accepted c a s) = flash_st s"
  "dyn_st (accepted c a s) = dyn_st s"
  "periodic_st (accepted c a s) = periodic_st s"
  "uds_rx_buf (accepted c a s) = uds_rx_buf s"
  by (simp_all add: accepted_def)

section \<open>No request is read behind its last byte\<close>

lemma io_service_reads:
  "0 < len \<Longrightarrow> uds_read_dtc_handle c e send nrc (take len req) len i
     = uds_read_dtc_handle c e send nrc req len i"
  "0 < len \<Longrightarrow> uds_read_did_case c e dm (take len req) len i = uds_read_did_case c e dm req len i"
  "0 < len \<Longrightarrow> uds_write_did_handle e ses ss send nrc (take len req) len i
     = uds_write_did_handle e ses ss send nrc req len i"
  "0 < len \<Longrightarrow> uds_handle_io_control e ses ss send nrc (take len req) len i
     = uds_handle_io_control e ses ss send nrc req len i"
  "0 < len \<Longrightarrow> uds_event_case (take len req) len i = uds_event_case req len i"
  "0 < len \<Longrightarrow> uds_tester_present_case (take len req) len i = uds_tester_present_case req len i"
  using rdt.reads [of len c e send nrc req "((), i)"] rdd.reads [of len c e dm req "((), i)"]
    wdid.reads [of len e ses ss send nrc req "((), i)"]
    ioc.reads [of len e ses ss send nrc req "((), i)"]
    roe.reads [of len req "((), i)"] tpr.reads [of len req "((), i)"]
  by (simp_all add: stateless_def)

lemma session_case_reads:
  "0 < len \<Longrightarrow> uds_session_case c (take len req) len s = uds_session_case c req len s"
  by (simp add: uds_session_case_def Let_def cong: if_cong)

lemma dispatch_reads:
  "0 < len \<Longrightarrow> uds_dispatch c e (take len req) len a s = uds_dispatch c e req len a s"
  by (simp add: uds_dispatch_def Let_def on_defs io_service_reads session_case_reads rst.reads
      clr.reads sec.reads per.reads ddd.reads rou.reads rdl.reads trd.reads rte.reads)

section \<open>What a request changes\<close>

definition valid_session_request :: "u8 list \<Rightarrow> nat \<Rightarrow> bool" where
  "valid_session_request req len \<longleftrightarrow>
     2 \<le> len \<and> req ! 0 = 0x10 \<and> (req ! 1 = 0x01 \<or> req ! 1 = 0x02 \<or> req ! 1 = 0x03)"

lemma dispatch_session:
  "session_st (uds_dispatch c e req len a s) =
     (if valid_session_request req len
      then (session_st s)\<lparr>current_session := uds_session_type_of (req ! 1)\<rparr> else session_st s)"
  by (auto simp: uds_dispatch_def Let_def uds_session_case_def valid_session_request_def
      uds_session_set_def case_prod_beta)

lemma dispatch_security:
  "security_st (uds_dispatch c e req len a s) =
     (if req ! 0 = 0x27 \<and> a = UDS_ADDR_PHYSICAL
      then fst (uds_security_handle_request c e Uds_send_response Uds_send_nrc req len
                  (security_st s, io_st s))
      else if valid_session_request req len then uds_security_reset_lock (security_st s)
      else security_st s)"
  by (cases a) (simp_all add: uds_dispatch_def Let_def uds_session_case_def valid_session_request_def)

lemma dispatch_flash:
  "flash_st (uds_dispatch c e req len a s) =
     (if a = UDS_ADDR_PHYSICAL \<and> req ! 0 = 0x34
      then fst (uds_handle_request_download c e (session_st s) (security_st s) Uds_send_response
                  Uds_send_nrc req len (flash_st s, io_st s))
      else if a = UDS_ADDR_PHYSICAL \<and> req ! 0 = 0x36
      then fst (uds_handle_transfer_data e Uds_send_response Uds_send_nrc req len
                  (flash_st s, io_st s))
      else if a = UDS_ADDR_PHYSICAL \<and> req ! 0 = 0x37
      then fst (uds_handle_request_transfer_exit Uds_send_response Uds_send_nrc req len
                  (flash_st s, io_st s))
      else flash_st s)"
  by (cases a) (simp_all add: uds_dispatch_def Let_def uds_session_case_def)

lemma dispatch_routine:
  "routine_st (uds_dispatch c e req len a s) =
     (if req ! 0 = 0x31
      then fst (uds_routine_handle_control e (session_st s) Uds_send_response Uds_send_nrc req len
                  (routine_st s, io_st s))
      else routine_st s)"
  by (cases a) (simp_all add: uds_dispatch_def Let_def uds_session_case_def)

lemma dispatch_clear:
  "clear_st (uds_dispatch c e req len a s) =
     (if req ! 0 = 0x14
      then fst (uds_clear_dtc_handle e Uds_send_response Uds_send_nrc req len
                  (clear_st s, io_st s))
      else clear_st s)"
  by (cases a) (simp_all add: uds_dispatch_def Let_def uds_session_case_def)

lemma dispatch_periodic:
  "periodic_st (uds_dispatch c e req len a s) =
     (if req ! 0 = 0x2A
      then fst (uds_handle_periodic_request Uds_send_response Uds_send_nrc req len
                  (periodic_st s, io_st s))
      else periodic_st s)"
  by (cases a) (simp_all add: uds_dispatch_def Let_def uds_session_case_def)

lemma dispatch_dyn:
  "dyn_st (uds_dispatch c e req len a s) =
     (if req ! 0 = 0x2C
      then fst (uds_handle_define_dynamic_did Uds_send_response Uds_send_nrc req len
                  (dyn_st s, io_st s))
      else dyn_st s)"
  by (cases a) (simp_all add: uds_dispatch_def Let_def uds_session_case_def)

lemma dispatch_reset:
  "reset_st (uds_dispatch c e req len a s) =
     (if req ! 0 = 0x11
      then fst (uds_reset_handle Uds_send_response Uds_send_nrc req len (reset_st s, io_st s))
      else reset_st s)"
  by (cases a) (simp_all add: uds_dispatch_def Let_def uds_session_case_def)

lemma dispatch_rest [simp]:
  "uds_rx_buf (uds_dispatch c e req len a s) = uds_rx_buf s"
  "uds_state.more (uds_dispatch c e req len a s) = uds_state.more s"
  by (cases a; simp add: uds_dispatch_def Let_def uds_session_case_def)+

section \<open>Properties\<close>

text \<open>
  C7: a request, of any service and in any state, is answered with at most one frame, and that frame is an
  answer to it: the positive answer of its service, or a negative one, which after a functional request can only be
  ResponsePending.
\<close>

theorem one_answer_per_request:
  assumes "uds_tx_buf (io_st s) \<noteq> []"
  shows "\<exists>evs. trace (io_st (uds_process_request c e req len a s)) = evs @ trace (io_st s) \<and>
    length (frames evs) \<le> 1 \<and> (\<forall>f \<in> set (frames evs). is_answer (req ! 0) a f)"
proof (cases "len = 0")
  case True
  then show ?thesis by (simp add: process_request_eq)
next
  case False
  have "uds_tx_buf (io_st (accepted c a s)) \<noteq> []" using assms by simp
  then obtain evs where evs: "trace (io_st (uds_dispatch c e req len a (accepted c a s))) = evs @ trace (io_st (accepted c a s))"
    "length (frames evs) \<le> 1" "\<forall>f \<in> set (frames evs). is_answer (req ! 0) a f"
    using dispatch_served [of "accepted c a s" req c e len a] by (auto simp: served_def grows_def)
  then show ?thesis
    using False by (intro exI [of _ "evs @ [s3_event c (session_st s)]"])
      (simp add: process_request_eq s3_event_def)
qed

theorem one_answer_per_request_witness:
  "\<exists>evs. trace (io_st (uds_process_request kconfig_default (quiet_env weak_hooks) [0x3E, 0] 2 UDS_ADDR_PHYSICAL
      (uds_state_0 kconfig_default))) = evs @ trace (io_st (uds_state_0 kconfig_default)) \<and>
    length (frames evs) \<le> 1 \<and> (\<forall>f \<in> set (frames evs). is_answer 0x3E UDS_ADDR_PHYSICAL f)"
  using one_answer_per_request [of "uds_state_0 kconfig_default" kconfig_default "quiet_env weak_hooks" "[0x3E, 0]" 2 UDS_ADDR_PHYSICAL]
  by (simp add: uds_state_0_def io_0_def kconfig_default_def)

text \<open>
  C9: no request is read behind its last received byte: what stands in the buffer there has no influence.
\<close>

theorem request_reads_only_received:
  "uds_process_request c e (take len req) len a s = uds_process_request c e req len a s"
  by (simp add: process_request_eq dispatch_reads)

text \<open>
  A functional request for security access, input/output control or the download services is dropped:
  it only restarts or stops the session timer, and nothing is sent.
\<close>

theorem functional_request_refused:
  assumes "req ! 0 \<in> {0x27, 0x2F, 0x34, 0x36, 0x37}" "0 < len"
  shows "uds_process_request c e req len UDS_ADDR_FUNCTIONAL s =
    on_io (\<lambda>i. emit (s3_event c (session_st s)) (i\<lparr>current_msg_addressing := UDS_ADDR_FUNCTIONAL\<rparr>)) s"
  using assms
  by (auto simp: process_request_eq uds_dispatch_def Let_def accepted_def on_io_def uds_send_nrc_def)

theorem functional_request_refused_witness:
  "uds_process_request kconfig_default (quiet_env weak_hooks) [0x27, 1] 2 UDS_ADDR_FUNCTIONAL (uds_state_0 kconfig_default) =
    on_io (\<lambda>i. emit (K_timer_stop S3_timer) (i\<lparr>current_msg_addressing := UDS_ADDR_FUNCTIONAL\<rparr>)) (uds_state_0 kconfig_default)"
  by (subst functional_request_refused) (simp_all add: s3_event_def uds_state_0_def session_state_0_def)

text \<open>
  C34: reading an identifier that is not the dynamic one asks the application once, with the room left in the buffer,
  and answers with its data or with the code of its error.
\<close>

theorem read_did_answers:
  assumes "req ! 0 = 0x22" "3 \<le> len" "dyn_did dm \<noteq> be16 (req ! 1) (req ! 2) \<or> entry_count dm = 0"
    and "uds_app_read_did (app e) (trace i) (be16 (req ! 1) (req ! 2)) 0 (CONFIG_UDS_BUFF_SIZE c - 3) = (ret, data, n)"
    and "3 + length data \<le> length (uds_tx_buf i)" "n \<le> length data"
  shows "new_events i (uds_read_did_case c e dm req len i) =
    (if ret = 0 then [Isotp_send ([0x62, req ! 1, req ! 2] @ take n data)]
     else nrc_trace 0x22 (if ret = - ENOMEM then UDS_NRC_RESPONSE_PENDING else UDS_NRC_REQUEST_OUT_OF_RANGE)
            (current_msg_addressing i))
    @ [App_read_did (be16 (req ! 1) (req ! 2)) (CONFIG_UDS_BUFF_SIZE c - 3)]"
proof -
  have p: "uds_read_dynamic_did_payload e (be16 (req ! 1) (req ! 2)) 3 0 dm i = (- ENOENT, 0, i)"
    using assms(3) by (simp add: uds_read_dynamic_did_payload_def)
  have b: "\<not> len < 3" "3 \<le> length (uds_tx_buf i)" using assms(2,5) by simp_all
  have t: "take (3 + n) (buf_put 2 [req ! 2] (buf_put 1 [req ! 1] (buf_put 0 [0x62] (buf_put 3 data (uds_tx_buf i)))))
      = [0x62, req ! 1, req ! 2] @ take n data"
  proof -
    obtain x y z zs where "uds_tx_buf i = x # y # z # zs"
      using b(2) by (auto simp: numeral_3_eq_3 Suc_le_length_iff)
    then show ?thesis
      using assms(5,6) by (simp add: numeral_3_eq_3 numeral_2_eq_2 buf_put_Cons buf_put_0_Cons) (simp add: buf_put_def)
  qed
  show ?thesis
    using assms(1) t by (intro new_events_eq) (simp add: uds_read_did_case_def Let_def p assms(4) b del: One_nat_def)
qed


theorem read_did_answers_witness:
  "new_events (io_0 kconfig_default) (uds_read_did_case kconfig_default (quiet_env (did_hooks [10, 20])) dyn_map_0
     [0x22, 0xF1, 0x90] 3 (io_0 kconfig_default))
   = [Isotp_send [0x62, 0xF1, 0x90, 10, 20], App_read_did (be16 0xF1 0x90) 4092]"
proof -
  have "5 \<le> length (uds_tx_buf (io_0 kconfig_default))" by (simp add: io_0_def kconfig_default_def)
  then have "new_events (io_0 kconfig_default) (uds_read_did_case kconfig_default (quiet_env (did_hooks [10, 20])) dyn_map_0
     [0x22, 0xF1, 0x90] 3 (io_0 kconfig_default))
   = [Isotp_send [0x62, 0xF1, 0x90, 10, 20], App_read_did (be16 0xF1 0x90) (CONFIG_UDS_BUFF_SIZE kconfig_default - 3)]"
    using read_did_answers [of "[0x22, 0xF1, 0x90]" 3 dyn_map_0 "quiet_env (did_hooks [10, 20])" "io_0 kconfig_default"
      kconfig_default 0 "[10, 20]" 2]
    by (simp add: dyn_map_0_def did_hooks_def)
  then show ?thesis by (simp add: kconfig_default_def)
qed

end
