(* ===== verification/Uds_System.thy ===== *)
theory Uds_System
  imports Uds_Server
begin

text \<open>
  The module at run time: the receive thread, the periodic thread, the system work queue and the
  five timers, as a step relation. A step runs one handler, one expiry function, one
  round of a thread, or one section of a work handler between two points where others can overtake it.
\<close>

section \<open>State\<close>

text \<open>
  Where the single thread of the system work queue is: in the hook of a routine, with what it is going to return, in
  the hook that clears trouble codes, in the sleep behind it, or in the transmission of the result.
\<close>

datatype wq_phase = Wq_idle | Wq_routine_hook int u8 | Wq_clear_hook | Wq_clear_sleep | Wq_sent work

text \<open>The item whose handler runs, and the one whose result is still to come.\<close>

fun running :: "wq_phase \<Rightarrow> work option" where
  "running Wq_idle = None"
| "running (Wq_routine_hook _ _) = Some Routine_work"
| "running (Wq_sent w) = Some w"
| "running _ = Some Clear_dtc_work"

definition serving :: "wq_phase \<Rightarrow> work option" where
  "serving q = (case q of Wq_sent _ \<Rightarrow> None | _ \<Rightarrow> running q)"

lemma serving_simps [simp]:
  "serving Wq_idle = None" "serving (Wq_routine_hook ret info) = Some Routine_work" "serving (Wq_sent w) = None"
  "serving Wq_clear_hook = Some Clear_dtc_work" "serving Wq_clear_sleep = Some Clear_dtc_work"
  by (simp_all add: serving_def)

record system = uds_state +
  wq :: wq_phase

definition system_0 :: "kconfig \<Rightarrow> system" where
  "system_0 c = uds_state.extend (uds_state_0 c) \<lparr>wq = Wq_idle\<rparr>"

abbreviation tr :: "system \<Rightarrow> trace" where
  "tr s \<equiv> trace (io_st s)"

section \<open>Steps\<close>

fun link_addressing :: "link \<Rightarrow> uds_addressing" where
  "link_addressing Rx_link = UDS_ADDR_PHYSICAL"
| "link_addressing Func_rx_link = UDS_ADDR_FUNCTIONAL"

text \<open>A poll of a link fills the receive buffer; a poll that returns a message is followed by its processing.\<close>

definition polled :: "link \<Rightarrow> u8 list \<Rightarrow> system \<Rightarrow> system" where
  "polled l buf s = (on_io (emit (Isotp_recv l (length (uds_rx_buf s)))) s)\<lparr>uds_rx_buf := buf\<rparr>"

definition received :: "kconfig \<Rightarrow> env \<Rightarrow> link \<Rightarrow> u8 list \<Rightarrow> nat \<Rightarrow> system \<Rightarrow> system" where
  "received c e l buf len s = uds_process_request c e buf len (link_addressing l) (polled l buf s)"

definition expired :: "timer \<Rightarrow> system \<Rightarrow> system" where
  "expired t s = on_io (emit (K_timer_expired t)) s"

definition s3_expiry :: "system \<Rightarrow> system" where
  "s3_expiry s =
     (let s = expired S3_timer s;
          (ses, ss) = s3_timer_expiry_cb (session_st s, security_st s)
      in s\<lparr>session_st := ses, security_st := ss\<rparr>)"

definition lockout_expiry :: "system \<Rightarrow> system" where
  "lockout_expiry s = on_security lockout_timer_expiry_cb (expired Lockout_timer s)"

definition reset_expiry :: "system \<Rightarrow> system" where
  "reset_expiry s = on_io (reset_timer_expiry_cb (reset_st s)) (expired Reset_timer s)"

definition routine_tick :: "system \<Rightarrow> system" where
  "routine_tick s = on_io (routine_nrc78_timer_cb (routine_st s)) (expired Routine_nrc78_timer s)"

definition clear_tick :: "system \<Rightarrow> system" where
  "clear_tick s = on_io (nrc78_timer_expiry_cb (clear_st s)) (expired Clear_nrc78_timer s)"

definition routine_begin :: "env \<Rightarrow> system \<Rightarrow> system" where
  "routine_begin e s =
     (let (ret, app_info, i) = routine_worker_call e (routine_st s, emit (K_work_begin Routine_work) (io_st s))
      in s\<lparr>io_st := i, wq := Wq_routine_hook ret app_info\<rparr>)"

definition routine_end :: "int \<Rightarrow> u8 \<Rightarrow> system \<Rightarrow> system" where
  "routine_end ret app_info s =
     (on_routine (routine_worker_finish ret app_info) s)\<lparr>wq := Wq_sent Routine_work\<rparr>"

definition clear_begin :: "env \<Rightarrow> system \<Rightarrow> system" where
  "clear_begin e s = (on_io (\<lambda>i. clear_dtc_worker_call e (clear_st s, emit (K_work_begin Clear_dtc_work) i)) s)\<lparr>wq := Wq_clear_hook\<rparr>"

definition clear_done :: "system \<Rightarrow> system" where
  "clear_done s = (on_clear clear_dtc_worker_done s)\<lparr>wq := Wq_clear_sleep\<rparr>"

definition clear_end :: "system \<Rightarrow> system" where
  "clear_end s =
     (on_io (\<lambda>i. clear_dtc_worker_confirm (clear_st s, i)) s)\<lparr>wq := Wq_sent Clear_dtc_work\<rparr>"

definition work_return :: "work \<Rightarrow> system \<Rightarrow> system" where
  "work_return w s = (on_io (emit (K_work_done w)) s)\<lparr>wq := Wq_idle\<rparr>"

text \<open>
  What runs beside the two threads: a timer callback only when its timer is armed, a work handler only when
  its item is the next of the queue and no handler runs. A handler is cut where it waits: in the hook of the
  application, in \<open>k_msleep\<close> and in the transmission of its result. This is all that is assumed of the scheduler.
\<close>

inductive background :: "env \<Rightarrow> system \<Rightarrow> system \<Rightarrow> bool" for e where
  s3: "timer_running S3_timer (tr s) \<Longrightarrow> background e s (s3_expiry s)"
| lockout: "timer_running Lockout_timer (tr s) \<Longrightarrow> background e s (lockout_expiry s)"
| reset: "timer_running Reset_timer (tr s) \<Longrightarrow> background e s (reset_expiry s)"
| routine_tick: "timer_running Routine_nrc78_timer (tr s) \<Longrightarrow> background e s (routine_tick s)"
| clear_tick: "timer_running Clear_nrc78_timer (tr s) \<Longrightarrow> background e s (clear_tick s)"
| routine_begin: "wq s = Wq_idle \<Longrightarrow> work_queue (tr s) = Routine_work # ws \<Longrightarrow>
     background e s (routine_begin e s)"
| routine_end: "wq s = Wq_routine_hook ret app_info \<Longrightarrow>
     background e s (routine_end ret app_info s)"
| clear_begin: "wq s = Wq_idle \<Longrightarrow> work_queue (tr s) = Clear_dtc_work # ws \<Longrightarrow>
     background e s (clear_begin e s)"
| clear_done: "wq s = Wq_clear_hook \<Longrightarrow> background e s (clear_done s)"
| clear_end: "wq s = Wq_clear_sleep \<Longrightarrow> background e s (clear_end s)"
| work_return: "wq s = Wq_sent w \<Longrightarrow> background e s (work_return w s)"

text \<open>
  A step of the module: a poll of the receive thread, with the processing of the message if there is one, a
  round of the periodic thread, or a background step. A request and a round are one step here;
  \<open>Uds_Preemption\<close> takes them apart.
\<close>

inductive uds_step :: "kconfig \<Rightarrow> env \<Rightarrow> system \<Rightarrow> system \<Rightarrow> bool" for c e where
  poll: "length buf = length (uds_rx_buf s) \<Longrightarrow> uds_step c e s (polled l buf s)"
| request: "length buf = length (uds_rx_buf s) \<Longrightarrow> len \<le> length buf \<Longrightarrow>
     uds_step c e s (received c e l buf len s)"
| periodic: "uds_step c e s (on_periodic (uds_periodic_thread_round e) s)"
| background: "background e s t \<Longrightarrow> uds_step c e s t"

lemmas background_steps = background.intros [THEN uds_step.background]

definition booted :: "kconfig \<Rightarrow> env \<Rightarrow> system" where
  "booted c e = snd (uds_init c e (system_0 c))"

inductive reachable :: "kconfig \<Rightarrow> env \<Rightarrow> system \<Rightarrow> bool" for c e where
  boot: "fst (uds_init c e (system_0 c)) = 0 \<Longrightarrow> reachable c e (booted c e)"
| step: "reachable c e s \<Longrightarrow> uds_step c e s t \<Longrightarrow> reachable c e t"

lemma reachable_run:
  assumes "reachable c e s" "(uds_step c e)\<^sup>*\<^sup>* s t"
  shows "reachable c e t"
  using assms(2,1) by (induction rule: rtranclp_induct) (auto intro: reachable.step)

section \<open>The receive thread makes steps\<close>

lemma rx_poll_step:
  assumes "fst (isotp_recv e (tr s) l (length (uds_rx_buf s))) \<le> int (length (uds_rx_buf s))"
  shows "uds_step c e s (uds_rx_poll c e l (link_addressing l) s)"
proof -
  define n where "n = length (uds_rx_buf s)"
  obtain r bs where rv: "isotp_recv e (tr s) l n = (r, bs)" by fastforce
  define buf where "buf = buf_put 0 (take n bs) (uds_rx_buf s)"
  have eq: "uds_rx_poll c e l (link_addressing l) s
      = (if r \<ge> 0 then received c e l buf (nat r) s else polled l buf s)"
    using rv by (simp add: uds_rx_poll_def Let_def n_def received_def polled_def buf_def)
  have "length buf = length (uds_rx_buf s)" by (simp add: buf_def)
  moreover have "nat r \<le> length buf" using assms rv by (simp add: n_def buf_def nat_le_iff)
  ultimately show ?thesis unfolding eq by (auto intro: uds_step.poll uds_step.request)
qed

section \<open>Scanning the trace\<close>

fun about_timer :: "timer \<Rightarrow> event \<Rightarrow> bool" where
  "about_timer t (K_timer_init t') \<longleftrightarrow> t' = t"
| "about_timer t (K_timer_start t' _ _) \<longleftrightarrow> t' = t"
| "about_timer t (K_timer_stop t') \<longleftrightarrow> t' = t"
| "about_timer t (K_timer_expired t') \<longleftrightarrow> t' = t"
| "about_timer t _ \<longleftrightarrow> False"

fun about_work :: "work \<Rightarrow> event \<Rightarrow> bool" where
  "about_work w (K_work_submit w') \<longleftrightarrow> w' = w"
| "about_work w (K_work_begin w') \<longleftrightarrow> True"
| "about_work w (K_work_done w') \<longleftrightarrow> w' = w"
| "about_work w _ \<longleftrightarrow> False"

lemma timer_mode_other: "\<not> about_timer t ev \<Longrightarrow> timer_mode t (ev # evs) = timer_mode t evs"
  by (cases ev) simp_all

lemma work_busy_other: "\<not> about_work w ev \<Longrightarrow> work_busy w (ev # evs) = work_busy w evs"
  by (cases ev) simp_all

lemma queued_other: "\<not> about_work w ev \<Longrightarrow> queued w (ev # evs) = queued w evs"
  by (cases ev) simp_all

lemma service_events_other:
  "is_send ev \<or> may_call sid ev \<Longrightarrow> sid \<noteq> timer_service t \<Longrightarrow> \<not> about_timer t ev"
  "is_send ev \<or> may_call sid ev \<Longrightarrow> sid \<noteq> work_service w \<Longrightarrow> \<not> about_work w ev"
  by (cases ev; auto)+

lemma dispatch_trace:
  assumes "uds_tx_buf (io_st s) \<noteq> []"
  obtains evs where "trace (io_st (uds_dispatch c e req len a s)) = evs @ trace (io_st s)"
    and "\<forall>ev \<in> set evs. is_send ev \<or> may_call (req ! 0) ev"
    and "length (frames evs) \<le> 1"
    and "\<forall>f \<in> set (frames evs). is_answer (req ! 0) (current_msg_addressing (io_st s)) f"
  using dispatch_served [OF assms, of req c e len a] by (auto simp: served_def grows_def)

section \<open>The trace of each step\<close>

lemma polled_sel [simp]:
  "tr (polled l buf s) = Isotp_recv l (length (uds_rx_buf s)) # tr s"
  "current_msg_addressing (io_st (polled l buf s)) = current_msg_addressing (io_st s)"
  "uds_tx_buf (io_st (polled l buf s)) = uds_tx_buf (io_st s)"
  "mem_fault (io_st (polled l buf s)) = mem_fault (io_st s)"
  "session_st (polled l buf s) = session_st s" "security_st (polled l buf s) = security_st s"
  "reset_st (polled l buf s) = reset_st s" "routine_st (polled l buf s) = routine_st s"
  "clear_st (polled l buf s) = clear_st s" "flash_st (polled l buf s) = flash_st s"
  "dyn_st (polled l buf s) = dyn_st s" "periodic_st (polled l buf s) = periodic_st s"
  "uds_rx_buf (polled l buf s) = buf" "wq (polled l buf s) = wq s"
  by (simp_all add: polled_def on_io_def)

lemma received_eq:
  "received c e l buf len s =
     (if len = 0 then polled l buf s
      else uds_dispatch c e buf len (link_addressing l)
             (accepted c (link_addressing l) (polled l buf s)))"
  by (simp add: received_def process_request_eq)

lemma wq_on [simp]:
  "wq (on_io f0 s) = wq s" "wq (on_session f1 s) = wq s" "wq (on_security f2 s) = wq s"
  "wq (on_reset f3 s) = wq s" "wq (on_routine f4 s) = wq s" "wq (on_clear f5 s) = wq s"
  "wq (on_flash f6 s) = wq s" "wq (on_dyn f7 s) = wq s" "wq (on_periodic f8 s) = wq s"
  by (simp_all add: on_defs case_prod_beta)

lemma wq_session_case [simp]: "wq (uds_session_case c req len s) = wq s"
  by (simp add: uds_session_case_def Let_def)

lemma wq_dispatch [simp]: "wq (uds_dispatch c e req len a s) = wq s"
  by (cases a) (simp_all add: uds_dispatch_def Let_def)

lemma wq_accepted [simp]: "wq (accepted c a s) = wq s"
  by (simp add: accepted_def)

lemma s3_expiry_sel [simp]:
  "trace (io_st (s3_expiry s)) = K_timer_expired S3_timer # tr s"
  "current_msg_addressing (io_st (s3_expiry s)) = current_msg_addressing (io_st s)"
  "uds_tx_buf (io_st (s3_expiry s)) = uds_tx_buf (io_st s)"
  "mem_fault (io_st (s3_expiry s)) = mem_fault (io_st s)"
  "session_st (s3_expiry s) = (session_st s)\<lparr>current_session := UDS_SESSION_DEFAULT\<rparr>"
  "security_st (s3_expiry s) = (if current_session (session_st s) = UDS_SESSION_DEFAULT then security_st s
      else uds_security_reset_lock (security_st s))"
  "reset_st (s3_expiry s) = reset_st s"
  "routine_st (s3_expiry s) = routine_st s"
  "clear_st (s3_expiry s) = clear_st s"
  "flash_st (s3_expiry s) = flash_st s"
  "dyn_st (s3_expiry s) = dyn_st s"
  "periodic_st (s3_expiry s) = periodic_st s"
  "uds_rx_buf (s3_expiry s) = uds_rx_buf s"
  "wq (s3_expiry s) = wq s"
  by (simp_all add: s3_expiry_def s3_timer_expiry_cb_def expired_def Let_def case_prod_beta split: option.split)

lemma lockout_expiry_sel [simp]:
  "trace (io_st (lockout_expiry s)) = Nvs_write Security_fs NVS_LOCKOUT_STATE_ID [0] #
      Nvs_write Security_fs NVS_DTC_COUNTER_ID [0] # K_timer_expired Lockout_timer # tr s"
  "current_msg_addressing (io_st (lockout_expiry s)) = current_msg_addressing (io_st s)"
  "uds_tx_buf (io_st (lockout_expiry s)) = uds_tx_buf (io_st s)"
  "mem_fault (io_st (lockout_expiry s)) = mem_fault (io_st s)"
  "session_st (lockout_expiry s) = session_st s"
  "security_st (lockout_expiry s) = (security_st s)
      \<lparr>security_status := UDS_SEC_LOCKED, failed_attempts_counter := 0\<rparr>"
  "reset_st (lockout_expiry s) = reset_st s"
  "routine_st (lockout_expiry s) = routine_st s"
  "clear_st (lockout_expiry s) = clear_st s"
  "flash_st (lockout_expiry s) = flash_st s"
  "dyn_st (lockout_expiry s) = dyn_st s"
  "periodic_st (lockout_expiry s) = periodic_st s"
  "uds_rx_buf (lockout_expiry s) = uds_rx_buf s"
  "wq (lockout_expiry s) = wq s"
  by (simp_all add: lockout_expiry_def lockout_timer_expiry_cb_def expired_def Let_def case_prod_beta split: option.split)

lemma reset_expiry_sel [simp]:
  "trace (io_st (reset_expiry s)) = Sys_reboot (chosen_reset_type (reset_st s)) # K_timer_expired Reset_timer # tr s"
  "current_msg_addressing (io_st (reset_expiry s)) = current_msg_addressing (io_st s)"
  "uds_tx_buf (io_st (reset_expiry s)) = uds_tx_buf (io_st s)"
  "mem_fault (io_st (reset_expiry s)) = mem_fault (io_st s)"
  "session_st (reset_expiry s) = session_st s"
  "security_st (reset_expiry s) = security_st s"
  "reset_st (reset_expiry s) = reset_st s"
  "routine_st (reset_expiry s) = routine_st s"
  "clear_st (reset_expiry s) = clear_st s"
  "flash_st (reset_expiry s) = flash_st s"
  "dyn_st (reset_expiry s) = dyn_st s"
  "periodic_st (reset_expiry s) = periodic_st s"
  "uds_rx_buf (reset_expiry s) = uds_rx_buf s"
  "wq (reset_expiry s) = wq s"
  by (simp_all add: reset_expiry_def reset_timer_expiry_cb_def expired_def Let_def case_prod_beta split: option.split)

lemma routine_tick_sel [simp]:
  "trace (io_st (routine_tick s)) = (case stored_routine_nrc_cb (routine_st s) of
        Some n \<Rightarrow> [Isotp_send [0x7F, stored_routine_sid (routine_st s), UDS_NRC_RESPONSE_PENDING]]
      | None \<Rightarrow> []) @ K_timer_expired Routine_nrc78_timer # tr s"
  "current_msg_addressing (io_st (routine_tick s)) = current_msg_addressing (io_st s)"
  "uds_tx_buf (io_st (routine_tick s)) = uds_tx_buf (io_st s)"
  "mem_fault (io_st (routine_tick s)) = mem_fault (io_st s)"
  "session_st (routine_tick s) = session_st s"
  "security_st (routine_tick s) = security_st s"
  "reset_st (routine_tick s) = reset_st s"
  "routine_st (routine_tick s) = routine_st s"
  "clear_st (routine_tick s) = clear_st s"
  "flash_st (routine_tick s) = flash_st s"
  "dyn_st (routine_tick s) = dyn_st s"
  "periodic_st (routine_tick s) = periodic_st s"
  "uds_rx_buf (routine_tick s) = uds_rx_buf s"
  "wq (routine_tick s) = wq s"
  by (simp_all add: routine_tick_def routine_nrc78_timer_cb_def nrc_trace_def expired_def Let_def case_prod_beta split: option.split)

lemma clear_tick_sel [simp]:
  "trace (io_st (clear_tick s)) = (if worker_done (clear_st s) then [] else
        K_timer_start Clear_nrc78_timer UDS_NRC78_PERIOD_MS 0 #
        (case stored_nrc_cb (clear_st s) of
           Some n \<Rightarrow> [Isotp_send [0x7F, stored_sid (clear_st s), UDS_NRC_RESPONSE_PENDING]]
         | None \<Rightarrow> [])) @ K_timer_expired Clear_nrc78_timer # tr s"
  "current_msg_addressing (io_st (clear_tick s)) = current_msg_addressing (io_st s)"
  "uds_tx_buf (io_st (clear_tick s)) = uds_tx_buf (io_st s)"
  "mem_fault (io_st (clear_tick s)) = mem_fault (io_st s)"
  "session_st (clear_tick s) = session_st s"
  "security_st (clear_tick s) = security_st s"
  "reset_st (clear_tick s) = reset_st s"
  "routine_st (clear_tick s) = routine_st s"
  "clear_st (clear_tick s) = clear_st s"
  "flash_st (clear_tick s) = flash_st s"
  "dyn_st (clear_tick s) = dyn_st s"
  "periodic_st (clear_tick s) = periodic_st s"
  "uds_rx_buf (clear_tick s) = uds_rx_buf s"
  "wq (clear_tick s) = wq s"
  by (simp_all add: clear_tick_def nrc78_timer_expiry_cb_def nrc_trace_def expired_def Let_def case_prod_beta split: option.split)

lemma routine_begin_sel [simp]:
  "trace (io_st (routine_begin e s)) = App_routine_start (active_routine_id (routine_st s)) # K_work_begin Routine_work # tr s"
  "current_msg_addressing (io_st (routine_begin e s)) = current_msg_addressing (io_st s)"
  "uds_tx_buf (io_st (routine_begin e s)) = uds_tx_buf (io_st s)"
  "mem_fault (io_st (routine_begin e s)) = mem_fault (io_st s)"
  "session_st (routine_begin e s) = session_st s"
  "security_st (routine_begin e s) = security_st s"
  "reset_st (routine_begin e s) = reset_st s"
  "routine_st (routine_begin e s) = routine_st s"
  "clear_st (routine_begin e s) = clear_st s"
  "flash_st (routine_begin e s) = flash_st s"
  "dyn_st (routine_begin e s) = dyn_st s"
  "periodic_st (routine_begin e s) = periodic_st s"
  "uds_rx_buf (routine_begin e s) = uds_rx_buf s"
  "wq (routine_begin e s) = (case uds_app_routine_start (app e) (K_work_begin Routine_work # tr s) (active_routine_id (routine_st s)) 0 of
      (ret, app_info) \<Rightarrow> Wq_routine_hook ret app_info)"
  by (simp_all add: routine_begin_def routine_worker_call_def expired_def Let_def case_prod_beta split: option.split)

lemma routine_end_sel [simp]:
  "trace (io_st (routine_end ret app_info s)) =
      (case stored_routine_send_cb (routine_st s) of
         Some n \<Rightarrow> [Isotp_send [0x71, 0x01, ucast (drop_bit 8 (active_routine_id (routine_st s))),
                     ucast (active_routine_id (routine_st s) AND 0xFF), if ret = 0 then 0 else 2]]
       | None \<Rightarrow> []) @ K_timer_stop Routine_nrc78_timer # tr s"
  "current_msg_addressing (io_st (routine_end ret app_info s)) = current_msg_addressing (io_st s)"
  "uds_tx_buf (io_st (routine_end ret app_info s)) = uds_tx_buf (io_st s)"
  "mem_fault (io_st (routine_end ret app_info s)) = mem_fault (io_st s)"
  "session_st (routine_end ret app_info s) = session_st s"
  "security_st (routine_end ret app_info s) = security_st s"
  "reset_st (routine_end ret app_info s) = reset_st s"
  "routine_st (routine_end ret app_info s) = fst (routine_worker_finish ret app_info (routine_st s, io_st s))"
  "clear_st (routine_end ret app_info s) = clear_st s"
  "flash_st (routine_end ret app_info s) = flash_st s"
  "dyn_st (routine_end ret app_info s) = dyn_st s"
  "periodic_st (routine_end ret app_info s) = periodic_st s"
  "uds_rx_buf (routine_end ret app_info s) = uds_rx_buf s"
  "wq (routine_end ret app_info s) = Wq_sent Routine_work"
  by (simp_all add: routine_end_def routine_worker_finish_def expired_def Let_def case_prod_beta split: option.split)

lemma clear_begin_sel [simp]:
  "trace (io_st (clear_begin e s)) = (case uds_app_get_nvs_context (app e) (K_work_begin Clear_dtc_work # tr s) of
        Some f \<Rightarrow> [App_clear_persistent_dtcs f (target_dtc_group (clear_st s))]
      | None \<Rightarrow> []) @ App_get_nvs_context # K_work_begin Clear_dtc_work # tr s"
  "current_msg_addressing (io_st (clear_begin e s)) = current_msg_addressing (io_st s)"
  "uds_tx_buf (io_st (clear_begin e s)) = uds_tx_buf (io_st s)"
  "mem_fault (io_st (clear_begin e s)) = mem_fault (io_st s)"
  "session_st (clear_begin e s) = session_st s"
  "security_st (clear_begin e s) = security_st s"
  "reset_st (clear_begin e s) = reset_st s"
  "routine_st (clear_begin e s) = routine_st s"
  "clear_st (clear_begin e s) = clear_st s"
  "flash_st (clear_begin e s) = flash_st s"
  "dyn_st (clear_begin e s) = dyn_st s"
  "periodic_st (clear_begin e s) = periodic_st s"
  "uds_rx_buf (clear_begin e s) = uds_rx_buf s"
  "wq (clear_begin e s) = Wq_clear_hook"
  by (simp_all add: clear_begin_def clear_dtc_worker_call_def expired_def Let_def case_prod_beta split: option.split)

lemma clear_done_sel [simp]:
  "trace (io_st (clear_done s)) = K_msleep 10 # K_timer_stop Clear_nrc78_timer # tr s"
  "current_msg_addressing (io_st (clear_done s)) = current_msg_addressing (io_st s)"
  "uds_tx_buf (io_st (clear_done s)) = uds_tx_buf (io_st s)"
  "mem_fault (io_st (clear_done s)) = mem_fault (io_st s)"
  "session_st (clear_done s) = session_st s"
  "security_st (clear_done s) = security_st s"
  "reset_st (clear_done s) = reset_st s"
  "routine_st (clear_done s) = routine_st s"
  "clear_st (clear_done s) = (clear_st s)\<lparr>worker_done := True\<rparr>"
  "flash_st (clear_done s) = flash_st s"
  "dyn_st (clear_done s) = dyn_st s"
  "periodic_st (clear_done s) = periodic_st s"
  "uds_rx_buf (clear_done s) = uds_rx_buf s"
  "wq (clear_done s) = Wq_clear_sleep"
  by (simp_all add: clear_done_def clear_dtc_worker_done_def expired_def Let_def case_prod_beta split: option.split)

lemma clear_end_sel [simp]:
  "trace (io_st (clear_end s)) =
      (case stored_send_cb (clear_st s) of Some n \<Rightarrow> [Isotp_send [0x54]] | None \<Rightarrow> []) @ tr s"
  "current_msg_addressing (io_st (clear_end s)) = current_msg_addressing (io_st s)"
  "uds_tx_buf (io_st (clear_end s)) = uds_tx_buf (io_st s)"
  "mem_fault (io_st (clear_end s)) = mem_fault (io_st s)"
  "session_st (clear_end s) = session_st s"
  "security_st (clear_end s) = security_st s"
  "reset_st (clear_end s) = reset_st s"
  "routine_st (clear_end s) = routine_st s"
  "clear_st (clear_end s) = clear_st s"
  "flash_st (clear_end s) = flash_st s"
  "dyn_st (clear_end s) = dyn_st s"
  "periodic_st (clear_end s) = periodic_st s"
  "uds_rx_buf (clear_end s) = uds_rx_buf s"
  "wq (clear_end s) = Wq_sent Clear_dtc_work"
  by (simp_all add: clear_end_def clear_dtc_worker_confirm_def expired_def Let_def case_prod_beta split: option.split)

lemma work_return_sel [simp]:
  "trace (io_st (work_return w s)) = K_work_done w # tr s"
  "current_msg_addressing (io_st (work_return w s)) = current_msg_addressing (io_st s)"
  "uds_tx_buf (io_st (work_return w s)) = uds_tx_buf (io_st s)"
  "mem_fault (io_st (work_return w s)) = mem_fault (io_st s)"
  "session_st (work_return w s) = session_st s"
  "security_st (work_return w s) = security_st s"
  "reset_st (work_return w s) = reset_st s"
  "routine_st (work_return w s) = routine_st s"
  "clear_st (work_return w s) = clear_st s"
  "flash_st (work_return w s) = flash_st s"
  "dyn_st (work_return w s) = dyn_st s"
  "periodic_st (work_return w s) = periodic_st s"
  "uds_rx_buf (work_return w s) = uds_rx_buf s"
  "wq (work_return w s) = Wq_idle"
  by (simp_all add: work_return_def)

end
