(* ===== verification/Uds_Preemption.thy ===== *)
theory Uds_Preemption
  imports Uds_System
begin

text \<open>
  The two threads statement by statement. The receive thread has the lowest priority of the module, so the timers, the
  work queue and the periodic thread can run between any two of its statements; it runs in turn while the
  periodic thread sleeps, sends or waits in its hook. A request and a round are programs of atomic actions
  here, and what they compute when nothing interferes is proved to be what the handlers do in one step.
\<close>

section \<open>Programs of one thread\<close>

text \<open>
  \<open>Act f g\<close> changes the state with \<open>f\<close> and goes on with \<open>g s\<close>, where \<open>s\<close> is the state the action read.
  \<open>Poll\<close> is the start of the endless loop of the thread, \<open>Halted\<close> its return.
\<close>

datatype 's prog = Poll | Halted | Act "'s \<Rightarrow> 's" "'s \<Rightarrow> 's prog"

definition act :: "('s \<Rightarrow> 's) \<Rightarrow> 's prog \<Rightarrow> 's prog" where
  "act f p = Act f (\<lambda>_. p)"

definition ask :: "('s \<Rightarrow> bool) \<Rightarrow> 's prog \<Rightarrow> 's prog \<Rightarrow> 's prog" where
  "ask b p q = Act id (\<lambda>s. if b s then p else q)"

text \<open>A program that runs alone: its last state, and whether the thread goes on.\<close>

primrec alone :: "'s prog \<Rightarrow> 's \<Rightarrow> 's \<times> 's prog" where
  "alone Poll = (\<lambda>s. (s, Poll))"
| "alone Halted = (\<lambda>s. (s, Halted))"
| "alone (Act f g) = (\<lambda>s. alone (g s) (f s))"

lemma alone_act [simp]: "alone (act f p) s = alone p (f s)"
  by (simp add: act_def)

lemma alone_ask [simp]: "alone (ask b p q) s = (if b s then alone p s else alone q s)"
  by (simp add: ask_def)

section \<open>The statements of the receive thread\<close>

definition bind_prog :: "kconfig \<Rightarrow> env \<Rightarrow> system prog" where
  "bind_prog c e =
     Act (on_io (emit (Isotp_bind Rx_link (rx_link c) (tx_link c) fc_opts)))
       (\<lambda>s. if isotp_bind e (tr s) Rx_link \<noteq> 0 then Halted else
          Act (on_io (emit (Isotp_bind Func_rx_link (func_rx_link c) (tx_link c) fc_opts)))
            (\<lambda>s. if isotp_bind e (tr s) Func_rx_link \<noteq> 0 then Halted else Poll))"

definition nrc_prog :: "u8 \<Rightarrow> u8 \<Rightarrow> system prog" where
  "nrc_prog sid nrc = act (on_io (uds_send_nrc sid nrc)) Poll"

definition refresh_prog :: "kconfig \<Rightarrow> system prog \<Rightarrow> system prog" where
  "refresh_prog c p =
     ask (\<lambda>s. current_session (session_st s) \<noteq> UDS_SESSION_DEFAULT)
       (act (on_io (emit (K_timer_start S3_timer (CONFIG_UDS_S3_TIMEOUT_MS c) 0))) p)
       (act (on_io (emit (K_timer_stop S3_timer))) p)"

definition set_status :: "uds_security_status \<Rightarrow> system \<Rightarrow> system" where
  "set_status st s = s\<lparr>security_st := (security_st s)\<lparr>security_status := st\<rparr>\<rparr>"

definition set_counter :: "(u8 \<Rightarrow> u8) \<Rightarrow> system \<Rightarrow> system" where
  "set_counter f s = s\<lparr>security_st :=
     (security_st s)\<lparr>failed_attempts_counter := f (failed_attempts_counter (security_st s))\<rparr>\<rparr>"

definition set_seed :: "(u8 list \<Rightarrow> u8 list) \<Rightarrow> system \<Rightarrow> system" where
  "set_seed f s = s\<lparr>security_st :=
     (security_st s)\<lparr>generated_seed := f (generated_seed (security_st s))\<rparr>\<rparr>"

definition set_session :: "uds_session_type \<Rightarrow> system \<Rightarrow> system" where
  "set_session ses s = s\<lparr>session_st := (session_st s)\<lparr>current_session := ses\<rparr>\<rparr>"

text \<open>Case 0x10: \<open>uds_security_reset_lock\<close>, \<open>uds_session_set\<close>, the answer.\<close>

definition session_prog :: "kconfig \<Rightarrow> u8 list \<Rightarrow> nat \<Rightarrow> system prog" where
  "session_prog c req len =
     (let sid = req ! 0 in
      if len < 2 then nrc_prog sid UDS_NRC_INCORRECT_LENGTH_OR_INVALID_FORMAT else
      (let req_sess = req ! 1 in
       if req_sess \<noteq> 0x01 \<and> req_sess \<noteq> 0x02 \<and> req_sess \<noteq> 0x03
       then nrc_prog sid UDS_NRC_SUB_FUNCTION_NOT_SUPPORTED else
       (let rest = act (set_session (uds_session_type_of req_sess))
              (refresh_prog c
                (act (on_io (\<lambda>i. send_tx Uds_send_response 2
                               (tx_put 1 [req_sess] (tx_put 0 [sid + 0x40] i)))) Poll))
        in ask (\<lambda>s. security_status (security_st s) \<noteq> UDS_SEC_BRUTE_FORCE_LOCKOUT)
             (act (set_status UDS_SEC_LOCKED) rest) rest)))"

text \<open>Service 0x27.\<close>

definition seed_answer_prog :: "kconfig \<Rightarrow> u8 \<Rightarrow> u8 \<Rightarrow> system prog" where
  "seed_answer_prog c sid sub_function =
     (let n = CONFIG_UDS_SEC_SEED_SIZE c in
      act (\<lambda>s. on_io (\<lambda>i. tx_put 2 (take n (generated_seed (security_st s)))
                  (tx_put 1 [sub_function] (tx_put 0 [sid + 0x40] i))) s)
        (act (on_io (send_tx Uds_send_response (2 + n))) Poll))"

definition seed_prog :: "kconfig \<Rightarrow> env \<Rightarrow> u8 \<Rightarrow> u8 \<Rightarrow> nat \<Rightarrow> system prog" where
  "seed_prog c e sid sub_function len =
     (let n = CONFIG_UDS_SEC_SEED_SIZE c in
      if len \<noteq> 2 then nrc_prog sid UDS_NRC_INCORRECT_LENGTH_OR_INVALID_FORMAT else
      ask (\<lambda>s. security_status (security_st s) = UDS_SEC_UNLOCKED)
        (act (set_seed (\<lambda>_. replicate n 0)) (seed_answer_prog c sid sub_function))
        (Act (on_io (emit (Device_is_ready Entropy_dev)))
          (\<lambda>s. if device_is_ready e (tr s) Entropy_dev
             then act (\<lambda>s. on_io (emit (Entropy_get_entropy n))
                        (set_seed (buf_put 0 (take n (entropy_get_entropy e (tr s) n))) s))
                    (act (set_status UDS_SEC_SEED_REQUESTED) (seed_answer_prog c sid sub_function))
             else act (\<lambda>s. on_io (\<lambda>i. fault_if (n > 4) (emit K_uptime_get_32 i))
                        (set_seed (\<lambda>_. uptime_seed n (k_uptime_get_32 e (tr s))) s))
                    (act (set_status UDS_SEC_SEED_REQUESTED) (seed_answer_prog c sid sub_function)))))"

definition granted_prog :: "u8 \<Rightarrow> u8 \<Rightarrow> system prog" where
  "granted_prog sid sub_function =
     act (set_status UDS_SEC_UNLOCKED)
     (act (set_counter (\<lambda>_. 0))
     (act (on_io (emit (Nvs_write Security_fs NVS_DTC_COUNTER_ID [0])))
     (act (on_io (\<lambda>i. send_tx Uds_send_response 2
                      (tx_put 1 [sub_function] (tx_put 0 [sid + 0x40] i)))) Poll)))"

definition rejected_prog :: "kconfig \<Rightarrow> u8 \<Rightarrow> system prog" where
  "rejected_prog c sid =
     act (set_counter (\<lambda>k. k + 1))
     (act (\<lambda>s. on_io (emit (Nvs_write Security_fs NVS_DTC_COUNTER_ID
                         [failed_attempts_counter (security_st s)])) s)
     (ask (\<lambda>s. unat (failed_attempts_counter (security_st s)) \<ge> CONFIG_UDS_SEC_MAX_FAILED_ATTEMPTS c)
       (act (set_status UDS_SEC_BRUTE_FORCE_LOCKOUT)
       (act (on_io (emit (Nvs_write Security_fs NVS_LOCKOUT_STATE_ID [1])))
       (act (on_io (emit (K_timer_start Lockout_timer (CONFIG_UDS_SEC_LOCKOUT_TIME_MS c) 0)))
         (nrc_prog sid UDS_NRC_EXCEEDED_NUMBER_OF_ATTEMPTS))))
       (act (set_status UDS_SEC_LOCKED) (nrc_prog sid UDS_NRC_INVALID_KEY))))"

definition key_prog :: "kconfig \<Rightarrow> env \<Rightarrow> u8 list \<Rightarrow> u8 \<Rightarrow> u8 \<Rightarrow> nat \<Rightarrow> system prog" where
  "key_prog c e req sid sub_function len =
     (let n = CONFIG_UDS_SEC_SEED_SIZE c in
      if len \<noteq> 2 + n then nrc_prog sid UDS_NRC_INCORRECT_LENGTH_OR_INVALID_FORMAT else
      ask (\<lambda>s. security_status (security_st s) \<noteq> UDS_SEC_SEED_REQUESTED)
        (nrc_prog sid UDS_NRC_REQUEST_SEQUENCE_ERROR)
        (Act (\<lambda>s. on_io (\<lambda>i. emit (App_verify_key_krypto (sub_function - 1) (generated_seed (security_st s))
                                (received_key c e req i)) (fault_if (n > 16) i)) s)
          (\<lambda>s. if uds_app_verify_key_krypto (app e) (tr s) (sub_function - 1)
                    (generated_seed (security_st s)) (received_key c e req (io_st s)) = 0
               then granted_prog sid sub_function else rejected_prog c sid)))"

definition security_prog :: "kconfig \<Rightarrow> env \<Rightarrow> u8 list \<Rightarrow> nat \<Rightarrow> system prog" where
  "security_prog c e req len =
     (let sid = req ! 0 in
      if len < 2 then nrc_prog sid UDS_NRC_INCORRECT_LENGTH_OR_INVALID_FORMAT else
      ask (\<lambda>s. security_status (security_st s) = UDS_SEC_BRUTE_FORCE_LOCKOUT)
        (nrc_prog sid UDS_NRC_EXCEEDED_NUMBER_OF_ATTEMPTS)
        (let sub_function = req ! 1 in
         if sub_function = 0x01 \<or> sub_function = 0x03 then seed_prog c e sid sub_function len
         else if sub_function = 0x02 \<or> sub_function = 0x04 then key_prog c e req sid sub_function len
         else nrc_prog sid UDS_NRC_SUB_FUNCTION_NOT_SUPPORTED))"

text \<open>
  Service 0x2A. C leaves it open whether \<open>active_did_count++\<close> happens before or after the assignment it stands in;
  here the assignment comes first.
\<close>

definition set_periodic :: "(periodic_state \<Rightarrow> periodic_state) \<Rightarrow> system \<Rightarrow> system" where
  "set_periodic f s = s\<lparr>periodic_st := f (periodic_st s)\<rparr>"

definition periodic_request_prog :: "u8 list \<Rightarrow> nat \<Rightarrow> system prog" where
  "periodic_request_prog req len =
     (let sid = req ! 0 in
      act (set_periodic (\<lambda>ps. ps\<lparr>periodic_send_cb := Some Uds_send_response\<rparr>))
       (if len < 3 then nrc_prog sid UDS_NRC_INCORRECT_LENGTH_OR_INVALID_FORMAT else
        (let transmission_mode = req ! 1 in
         if transmission_mode = 0x04 then
           act (set_periodic (\<lambda>ps. ps\<lparr>active_did_count := 0\<rparr>))
           (act (on_io (call_send Uds_send_response [0x6A, transmission_mode] 2)) Poll)
         else if transmission_mode = 0x01 then
           ask (\<lambda>s. active_did_count (periodic_st s) \<ge> 5)
             (nrc_prog sid UDS_NRC_REQUEST_OUT_OF_RANGE)
             (act (set_periodic (\<lambda>ps. ps\<lparr>active_periodic_dids :=
                     (active_periodic_dids ps)[unat (active_did_count ps) := req ! 2]\<rparr>))
             (act (set_periodic (\<lambda>ps. ps\<lparr>active_did_count := active_did_count ps + 1\<rparr>))
             (act (on_io (call_send Uds_send_response [0x6A, transmission_mode, req ! 2] 3)) Poll)))
         else Poll)))"

text \<open>Service 0x11.\<close>

definition set_reset :: "(reset_state \<Rightarrow> reset_state) \<Rightarrow> system \<Rightarrow> system" where
  "set_reset f s = s\<lparr>reset_st := f (reset_st s)\<rparr>"

definition reset_prog :: "u8 list \<Rightarrow> nat \<Rightarrow> system prog" where
  "reset_prog req len =
     (let sid = req ! 0 in
      if len < 2 then nrc_prog sid UDS_NRC_INCORRECT_LENGTH_OR_INVALID_FORMAT else
      (let reset_type = req ! 1;
           finish = act (on_io (\<lambda>i. send_tx Uds_send_response 2
                                  (tx_put 1 [reset_type] (tx_put 0 [sid + 0x40] i))))
             (act (on_io (emit (K_timer_start Reset_timer UDS_RESET_DELAY_MS 0))) Poll)
       in if reset_type = 0x01 then act (set_reset (\<lambda>rs. rs\<lparr>chosen_reset_type := SYS_REBOOT_COLD\<rparr>)) finish
          else if reset_type = 0x03 then act (set_reset (\<lambda>rs. rs\<lparr>chosen_reset_type := SYS_REBOOT_WARM\<rparr>)) finish
          else nrc_prog sid UDS_NRC_SUB_FUNCTION_NOT_SUPPORTED))"

text \<open>Service 0x31: a start hands the routine over to the work queue, in the order of the code.\<close>

definition set_routine :: "(routine_state \<Rightarrow> routine_state) \<Rightarrow> system \<Rightarrow> system" where
  "set_routine f s = s\<lparr>routine_st := f (routine_st s)\<rparr>"

definition start_prog :: "u8 \<Rightarrow> u16 \<Rightarrow> system prog" where
  "start_prog sid routine_id =
     act (set_routine (\<lambda>rs. rs\<lparr>active_routine_id := routine_id\<rparr>))
     (act (set_routine (\<lambda>rs. rs\<lparr>erase_routine_status := ROUTINE_RUNNING\<rparr>))
     (act (set_routine (\<lambda>rs. rs\<lparr>stored_routine_send_cb := Some Uds_send_response\<rparr>))
     (act (set_routine (\<lambda>rs. rs\<lparr>stored_routine_nrc_cb := Some Uds_send_nrc\<rparr>))
     (act (set_routine (\<lambda>rs. rs\<lparr>stored_routine_sid := sid\<rparr>))
     (act (on_io (emit (K_timer_start Routine_nrc78_timer 0 UDS_ROUTINE_NRC78_PERIOD_MS)))
     (act (on_io (emit (K_work_submit Routine_work))) Poll))))))"

definition routine_prog :: "env \<Rightarrow> u8 list \<Rightarrow> nat \<Rightarrow> system prog" where
  "routine_prog e req len =
     (if len = 0 then Poll else
      (let sid = req ! 0 in
       ask (\<lambda>s. current_session (session_st s) = UDS_SESSION_DEFAULT)
        (nrc_prog sid UDS_NRC_SUB_FUNCTION_NOT_SUPPORTED_IN_ACTIVE_SESS)
        (if len < 4 then nrc_prog sid UDS_NRC_INCORRECT_LENGTH_OR_INVALID_FORMAT else
         (let sub_function = req ! 1;
              routine_id = be16 (req ! 2) (req ! 3)
          in if sub_function = 0x01 then
               ask (\<lambda>s. erase_routine_status (routine_st s) = ROUTINE_RUNNING)
                 (nrc_prog sid UDS_NRC_CONDITIONS_NOT_CORRECT) (start_prog sid routine_id)
             else if sub_function = 0x03 then
               Act (on_io (emit (App_routine_request_results routine_id)))
                 (\<lambda>s. let (ret, app_status, app_exit) =
                            uds_app_routine_request_results (app e) (tr s) routine_id 0 0
                      in if ret \<noteq> 0 then nrc_prog sid UDS_NRC_REQUEST_OUT_OF_RANGE
                         else act (on_io (call_send Uds_send_response
                                [sid + 0x40, sub_function, req ! 2, req ! 3, app_status, app_exit] 6)) Poll)
             else nrc_prog sid UDS_NRC_SUB_FUNCTION_NOT_SUPPORTED))))"

text \<open>Service 0x14.\<close>

definition set_clear :: "(clear_state \<Rightarrow> clear_state) \<Rightarrow> system \<Rightarrow> system" where
  "set_clear f s = s\<lparr>clear_st := f (clear_st s)\<rparr>"

definition clear_prog :: "env \<Rightarrow> u8 list \<Rightarrow> nat \<Rightarrow> system prog" where
  "clear_prog e req len =
     (let sid = req ! 0 in
      if len \<noteq> 4 then nrc_prog sid UDS_NRC_INCORRECT_LENGTH_OR_INVALID_FORMAT else
      Act (on_io (emit (K_work_is_pending Clear_dtc_work)))
        (\<lambda>s. if k_work_is_pending e (tr s) Clear_dtc_work
           then nrc_prog sid UDS_NRC_CONDITIONS_NOT_CORRECT
           else
             act (set_clear (\<lambda>cs. cs\<lparr>target_dtc_group := be24 (req ! 1) (req ! 2) (req ! 3)\<rparr>))
             (act (set_clear (\<lambda>cs. cs\<lparr>stored_send_cb := Some Uds_send_response\<rparr>))
             (act (set_clear (\<lambda>cs. cs\<lparr>stored_nrc_cb := Some Uds_send_nrc\<rparr>))
             (act (set_clear (\<lambda>cs. cs\<lparr>stored_sid := sid\<rparr>))
             (act (set_clear (\<lambda>cs. cs\<lparr>worker_done := False\<rparr>))
             (act (on_io (emit (K_timer_start Clear_nrc78_timer UDS_NRC78_PERIOD_MS 0)))
             (act (on_io (emit (K_work_submit Clear_dtc_work))) Poll))))))))"

text \<open>
  The services that read the session and the security status before they call the application: both are read, one
  after the other, and what follows rests on the values read.
\<close>

definition guard_prog :: "(session_state \<Rightarrow> security_state \<Rightarrow> system \<Rightarrow> system) \<Rightarrow> system prog" where
  "guard_prog f =
     Act id (\<lambda>s. Act id (\<lambda>s'. act (f (session_st s) (security_st s')) Poll))"

text \<open>
  A whole request. Services 0x27, 0x2F and 0x34 refuse a functional one. What remains as one action shares nothing with
  a timer, with the work queue or with the periodic thread: the handlers of the other services, and those above behind their
  reads.
\<close>

definition service_prog :: "kconfig \<Rightarrow> env \<Rightarrow> u8 list \<Rightarrow> nat \<Rightarrow> uds_addressing \<Rightarrow> system prog" where
  "service_prog c e req len addr_type =
     (let sid = req ! 0 in
      if sid = 0x10 then session_prog c req len
      else if addr_type = UDS_ADDR_PHYSICAL \<and> sid = 0x27 then security_prog c e req len
      else if sid = 0x2E then
        guard_prog (\<lambda>ses ss. on_io (uds_write_did_handle e ses ss Uds_send_response Uds_send_nrc req len))
      else if addr_type = UDS_ADDR_PHYSICAL \<and> sid = 0x2F then
        guard_prog (\<lambda>ses ss. on_io (uds_handle_io_control e ses ss Uds_send_response Uds_send_nrc req len))
      else if addr_type = UDS_ADDR_PHYSICAL \<and> sid = 0x34 then
        guard_prog (\<lambda>ses ss. on_flash (uds_handle_request_download c e ses ss Uds_send_response Uds_send_nrc req len))
      else if sid = 0x11 then reset_prog req len
      else if sid = 0x14 then clear_prog e req len
      else if sid = 0x31 then routine_prog e req len
      else if sid = 0x2A then periodic_request_prog req len
      else act (uds_dispatch c e req len addr_type) Poll)"

definition request_prog :: "kconfig \<Rightarrow> env \<Rightarrow> u8 list \<Rightarrow> nat \<Rightarrow> uds_addressing \<Rightarrow> system prog" where
  "request_prog c e req len addr_type =
     (if len = 0 then Poll else
      act (on_io (\<lambda>i. i\<lparr>current_msg_addressing := addr_type\<rparr>))
        (refresh_prog c (service_prog c e req len addr_type)))"

section \<open>The statements of the periodic thread\<close>

text \<open>The call of the hook, for the identifier in slot \<open>k\<close>.\<close>

definition hook_call :: "env \<Rightarrow> nat \<Rightarrow> system \<Rightarrow> system" where
  "hook_call e k s =
     (let ps = periodic_st s; did = active_periodic_dids ps ! k;
          (ret, data, n) = uds_app_get_periodic_did (app e) (tr s) did (data_len ps)
      in s\<lparr>periodic_st := ps\<lparr>periodic_tx_buf := buf_put 2 data (periodic_tx_buf ps), data_len := n\<rparr>,
           io_st := fault_if (2 + length data > length (periodic_tx_buf ps) \<or> length (active_periodic_dids ps) \<le> k)
                      (emit (App_get_periodic_did did) (io_st s))\<rparr>)"

text \<open>The call through the stored pointer, which must not be NULL.\<close>

definition send_sample :: "system \<Rightarrow> system" where
  "send_sample s =
     (case periodic_send_cb (periodic_st s) of
        Some send \<Rightarrow> on_io (call_send send (periodic_tx_buf (periodic_st s)) (2 + data_len (periodic_st s))) s
      | None \<Rightarrow> on_io (fault_if True) s)"

definition sample_prog :: "env \<Rightarrow> nat \<Rightarrow> system prog \<Rightarrow> system prog" where
  "sample_prog e k p =
     act (set_periodic (\<lambda>ps. ps\<lparr>periodic_tx_buf := buf_put 0 [0x2A] (periodic_tx_buf ps)\<rparr>))
     (act (\<lambda>s. on_io (fault_if (length (active_periodic_dids (periodic_st s)) \<le> k))
             (set_periodic (\<lambda>ps. ps\<lparr>periodic_tx_buf :=
                buf_put 1 [active_periodic_dids ps ! k] (periodic_tx_buf ps)\<rparr>) s))
     (Act (hook_call e k)
       (\<lambda>s. if fst (uds_app_get_periodic_did (app e) (tr s) (active_periodic_dids (periodic_st s) ! k)
                     (data_len (periodic_st s))) = 0
            then act send_sample p else p)))"

text \<open>
  The loop over \<open>i\<close>, which reads \<open>active_did_count\<close>, a byte, before every turn: it ends before \<open>i\<close> is 256.
\<close>

fun loop_prog :: "env \<Rightarrow> nat list \<Rightarrow> system prog" where
  "loop_prog e [] = Poll"
| "loop_prog e (k # ks) =
     ask (\<lambda>s. k < unat (active_did_count (periodic_st s))) (sample_prog e k (loop_prog e ks)) Poll"

definition round_prog :: "env \<Rightarrow> system prog" where
  "round_prog e =
     act (on_io (emit (K_msleep 10)))
     (ask (\<lambda>s. active_did_count (periodic_st s) = 0 \<or> periodic_send_cb (periodic_st s) = None)
       Poll (loop_prog e [0..<256]))"

section \<open>Alone, a request is what the dispatcher computes\<close>

lemma set_sel [simp]:
  "io_st (set_status st s) = io_st s" "io_st (set_counter f s) = io_st s"
  "io_st (set_seed g s) = io_st s" "io_st (set_session ses s) = io_st s"
  "security_st (set_status st s) = (security_st s)\<lparr>security_status := st\<rparr>"
  "security_st (set_counter f s) = (security_st s)\<lparr>failed_attempts_counter := f (failed_attempts_counter (security_st s))\<rparr>"
  "security_st (set_seed g s) = (security_st s)\<lparr>generated_seed := g (generated_seed (security_st s))\<rparr>"
  "security_st (set_session ses s) = security_st s"
  "flash_st (set_status st s) = flash_st s" "flash_st (set_counter f s) = flash_st s"
  "flash_st (set_seed g s) = flash_st s" "flash_st (set_session ses s) = flash_st s"
  "session_st (set_status st s) = session_st s" "session_st (set_counter f s) = session_st s"
  "session_st (set_seed g s) = session_st s"
  "session_st (set_session ses s) = (session_st s)\<lparr>current_session := ses\<rparr>"
  by (simp_all add: set_status_def set_counter_def set_seed_def set_session_def)

lemma set_periodic_sel [simp]:
  "io_st (set_periodic f s) = io_st s" "session_st (set_periodic f s) = session_st s"
  "security_st (set_periodic f s) = security_st s" "flash_st (set_periodic f s) = flash_st s"
  "uds_rx_buf (set_periodic f s) = uds_rx_buf s" "periodic_st (set_periodic f s) = f (periodic_st s)"
  "periodic_st (set_status st s) = periodic_st s" "periodic_st (set_counter f1 s) = periodic_st s"
  "periodic_st (set_seed f2 s) = periodic_st s" "periodic_st (set_session ses s) = periodic_st s"
  by (simp_all add: set_periodic_def set_status_def set_counter_def set_seed_def set_session_def)

lemma set_work_sel [simp]:
  "io_st (set_reset f s) = io_st s" "io_st (set_routine g s) = io_st s" "io_st (set_clear h s) = io_st s"
  "reset_st (set_reset f s) = f (reset_st s)" "routine_st (set_routine g s) = g (routine_st s)"
  "clear_st (set_clear h s) = h (clear_st s)"
  by (simp_all add: set_reset_def set_routine_def set_clear_def)

lemmas set_defs = set_reset_def set_routine_def set_clear_def set_status_def set_counter_def set_seed_def set_session_def set_periodic_def

lemma alone_nrc [simp]: "alone (nrc_prog sid nrc) s = (on_io (uds_send_nrc sid nrc) s, Poll)"
  by (simp add: nrc_prog_def)

lemma alone_guard [simp]:
  "alone (guard_prog f) s = (f (session_st s) (security_st s) s, Poll)"
  by (simp add: guard_prog_def)

lemma alone_refresh:
  "alone (refresh_prog c p) s = alone p (on_io (uds_session_refresh_timer c (session_st s)) s)"
  by (simp add: refresh_prog_def uds_session_refresh_timer_def on_io_def)

lemma alone_session: "alone (session_prog c req len) s = (uds_session_case c req len s, Poll)"
  by (simp add: session_prog_def uds_session_case_def Let_def alone_refresh uds_security_reset_lock_def
      uds_session_set_def set_defs on_defs)

lemma alone_security:
  "alone (security_prog c e req len) s =
     (on_security (uds_security_handle_request c e Uds_send_response Uds_send_nrc req len) s, Poll)"
  by (simp add: security_prog_def seed_prog_def key_prog_def granted_prog_def rejected_prog_def
      seed_answer_prog_def security_handle_defs set_defs on_defs received_key_def)

lemma alone_periodic_request:
  "alone (periodic_request_prog req len) s =
     (on_periodic (uds_handle_periodic_request Uds_send_response Uds_send_nrc req len) s, Poll)"
  by (simp add: periodic_request_prog_def uds_handle_periodic_request_def Let_def set_defs on_defs)

lemma alone_reset:
  "alone (reset_prog req len) s = (on_reset (uds_reset_handle Uds_send_response Uds_send_nrc req len) s, Poll)"
  by (simp add: reset_prog_def uds_reset_handle_def Let_def set_defs on_defs)

lemma alone_routine:
  "alone (routine_prog e req len) s =
     (on_routine (uds_routine_handle_control e (session_st s) Uds_send_response Uds_send_nrc req len) s, Poll)"
  by (simp add: routine_prog_def start_prog_def uds_routine_handle_control_def uds_session_get_def Let_def set_defs
      on_defs case_prod_beta)

lemma alone_clear:
  "alone (clear_prog e req len) s = (on_clear (uds_clear_dtc_handle e Uds_send_response Uds_send_nrc req len) s, Poll)"
  by (simp add: clear_prog_def uds_clear_dtc_handle_def Let_def set_defs on_defs)

lemma alone_service:
  "alone (service_prog c e req len a) s = (uds_dispatch c e req len a s, Poll)"
  by (cases a) (simp_all add: service_prog_def Let_def alone_session alone_security
      alone_periodic_request alone_reset alone_routine alone_clear uds_dispatch_def)

lemma alone_request:
  "alone (request_prog c e req len a) s = (uds_process_request c e req len a s, Poll)"
  by (simp add: request_prog_def uds_process_request_def alone_refresh alone_service Let_def)

lemma alone_bind:
  "alone (bind_prog c e) s =
     (let (bound, t) = uds_rx_thread_bind c e s in (t, if bound then Poll else Halted))"
  by (simp add: bind_prog_def uds_rx_thread_bind_def Let_def)

text \<open>The same for a round, in a state whose list of identifiers is in order.\<close>

lemma fault_if_False [simp]: "fault_if False i = i"
  by (simp add: fault_if_def)

lemma on_periodic_eq: "on_periodic f s = s\<lparr>periodic_st := fst (f (periodic_st s, io_st s)), io_st := snd (f (periodic_st s, io_st s))\<rparr>"
  by (simp add: on_periodic_def case_prod_beta)

lemma alone_sample:
  assumes "periodic_send_cb (periodic_st s) = Some send" "k < length (active_periodic_dids (periodic_st s))"
  shows "alone (sample_prog e k p) s = alone p (on_periodic (sample_dids e send [k]) s)"
  using assms
  by (simp add: sample_prog_def hook_call_def send_sample_def set_defs on_io_def on_periodic_eq Let_def case_prod_beta)

lemma sample_dids_list [simp]:
  "active_periodic_dids (fst (sample_dids e send ks p)) = active_periodic_dids (fst p)"
  "active_did_count (fst (sample_dids e send ks p)) = active_did_count (fst p)"
  "periodic_send_cb (fst (sample_dids e send ks p)) = periodic_send_cb (fst p)"
proof (induction ks arbitrary: p)
  case (Cons k ks)
  case 1 show ?case using Cons by (cases p) (simp add: Let_def case_prod_beta)
  case 2 show ?case using Cons by (cases p) (simp add: Let_def case_prod_beta)
  case 3 show ?case using Cons by (cases p) (simp add: Let_def case_prod_beta)
qed (case_tac [!] p, simp_all)

lemma alone_loop:
  assumes "periodic_send_cb (periodic_st s) = Some send" "periodic_inv (periodic_st s)" "k \<le> 256"
  shows "alone (loop_prog e [k..<256]) s =
    (on_periodic (sample_dids e send [k..<unat (active_did_count (periodic_st s))]) s, Poll)"
  using assms
proof (induction "256 - k" arbitrary: k s)
  case 0
  have "unat (active_did_count (periodic_st s)) \<le> 256" by (rule less_imp_le, rule unat_u8_less)
  then have none: "[256..<unat (active_did_count (periodic_st s))] = []" by (rule upt_conv_Nil)
  have "k = 256" using 0 by simp
  then show ?case by (simp add: none on_periodic_eq)
next
  case (Suc n)
  show ?case
  proof (cases "k < unat (active_did_count (periodic_st s))")
    case True
    define t where "t = on_periodic (sample_dids e send [k]) s"
    have k: "k < 256" "k < length (active_periodic_dids (periodic_st s))"
      using True Suc.prems(2) by (auto simp: periodic_inv_def)
    have t: "periodic_send_cb (periodic_st t) = Some send" "periodic_inv (periodic_st t)"
      "active_did_count (periodic_st t) = active_did_count (periodic_st s)"
      using Suc.prems sampled_round by (simp_all add: t_def on_periodic_eq periodic_inv_def Let_def case_prod_beta)
    have "alone (loop_prog e [k..<256]) s = alone (loop_prog e [Suc k..<256]) t"
      using True k alone_sample [OF Suc.prems(1) k(2)] by (simp add: upt_conv_Cons t_def del: upt_Suc)
    also have "\<dots> = (on_periodic (sample_dids e send [Suc k..<unat (active_did_count (periodic_st s))]) t, Poll)"
      using Suc.hyps(1) [of "Suc k" t] Suc.hyps(2) k(1) t by simp
    finally show ?thesis
      using True by (simp add: t_def upt_conv_Cons on_periodic_eq Let_def case_prod_beta del: upt_Suc)
  next
    case False
    then show ?thesis using Suc.hyps(2) by (simp add: upt_conv_Cons on_periodic_eq del: upt_Suc)
  qed
qed

lemma alone_round:
  assumes "periodic_inv (periodic_st s)"
  shows "alone (round_prog e) s = (on_periodic (uds_periodic_thread_round e) s, Poll)"
proof (cases "periodic_send_cb (periodic_st s)")
  case None
  then show ?thesis by (simp add: round_prog_def on_periodic_eq uds_periodic_thread_round_def on_io_def)
next
  case (Some send)
  then show ?thesis
    using alone_loop [of "on_io (emit (K_msleep 10)) s" send 0 e] assms
    by (simp add: round_prog_def on_periodic_eq uds_periodic_thread_round_def on_io_def del: upt_Suc)
qed

section \<open>Preemption\<close>

text \<open>
  A configuration: the state, and where the receive thread and the periodic thread are. A step is a background
  step, which leaves both threads where they are, a poll that receives nothing, a poll that receives a message
  and starts its request, the start of a round, or one action of a thread.
\<close>

type_synonym threads = "system \<times> system prog \<times> system prog"

inductive preempted :: "kconfig \<Rightarrow> env \<Rightarrow> threads \<Rightarrow> threads \<Rightarrow> bool" for c e where
  other: "background e s t \<Longrightarrow> preempted c e (s, p, q) (t, p, q)"
| silent: "length buf = length (uds_rx_buf s) \<Longrightarrow> preempted c e (s, Poll, q) (polled l buf s, Poll, q)"
| receive: "length buf = length (uds_rx_buf s) \<Longrightarrow> len \<le> length buf \<Longrightarrow>
     preempted c e (s, Poll, q) (polled l buf s, request_prog c e buf len (link_addressing l), q)"
| rx_action: "preempted c e (s, Act f g, q) (f s, g s, q)"
| round: "preempted c e (s, p, Poll) (s, p, round_prog e)"
| periodic_action: "preempted c e (s, p, Act f g) (f s, p, g s)"

text \<open>The module from its boot on, with the receive thread at its first statement.\<close>

inductive threads_reach :: "kconfig \<Rightarrow> env \<Rightarrow> system \<Rightarrow> system prog \<Rightarrow> system prog \<Rightarrow> bool" for c e where
  boot: "fst (uds_init c e (system_0 c)) = 0 \<Longrightarrow> threads_reach c e (booted c e) (bind_prog c e) Poll"
| step: "threads_reach c e s p q \<Longrightarrow> preempted c e (s, p, q) (t, p', q') \<Longrightarrow> threads_reach c e t p' q'"

text \<open>Each thread is free to run without a break.\<close>

lemma preempted_alone_rx: "(preempted c e)\<^sup>*\<^sup>* (s, p, q) (fst (alone p s), snd (alone p s), q)"
proof (induction p arbitrary: s)
  case (Act f g)
  have "preempted c e (s, Act f g, q) (f s, g s, q)" by (rule preempted.rx_action)
  moreover have "(preempted c e)\<^sup>*\<^sup>* (f s, g s, q) (fst (alone (g s) (f s)), snd (alone (g s) (f s)), q)"
    by (rule Act) simp
  ultimately show ?case by (simp add: converse_rtranclp_into_rtranclp)
qed simp_all

lemma preempted_alone_periodic: "(preempted c e)\<^sup>*\<^sup>* (s, p, q) (fst (alone q s), p, snd (alone q s))"
proof (induction q arbitrary: s)
  case (Act f g)
  have "preempted c e (s, p, Act f g) (f s, p, g s)" by (rule preempted.periodic_action)
  moreover have "(preempted c e)\<^sup>*\<^sup>* (f s, p, g s) (fst (alone (g s) (f s)), p, snd (alone (g s) (f s)))"
    by (rule Act) simp
  ultimately show ?case by (simp add: converse_rtranclp_into_rtranclp)
qed simp_all

lemma preempted_request:
  assumes "length buf = length (uds_rx_buf s)" "len \<le> length buf"
  shows "(preempted c e)\<^sup>*\<^sup>* (s, Poll, q) (received c e l buf len s, Poll, q)"
proof -
  have "preempted c e (s, Poll, q) (polled l buf s, request_prog c e buf len (link_addressing l), q)"
    using assms by (rule preempted.receive)
  moreover have "(preempted c e)\<^sup>*\<^sup>* (polled l buf s, request_prog c e buf len (link_addressing l), q)
      (received c e l buf len s, Poll, q)"
    using preempted_alone_rx [of c e "polled l buf s" "request_prog c e buf len (link_addressing l)" q]
    by (simp add: alone_request received_def)
  ultimately show ?thesis by (rule converse_rtranclp_into_rtranclp)
qed

lemma preempted_round:
  assumes "periodic_inv (periodic_st s)"
  shows "(preempted c e)\<^sup>*\<^sup>* (s, p, Poll) (on_periodic (uds_periodic_thread_round e) s, p, Poll)"
proof -
  have "preempted c e (s, p, Poll) (s, p, round_prog e)" by (rule preempted.round)
  moreover have "(preempted c e)\<^sup>*\<^sup>* (s, p, round_prog e) (on_periodic (uds_periodic_thread_round e) s, p, Poll)"
    using preempted_alone_periodic [of c e s p "round_prog e"] by (simp add: alone_round [OF assms])
  ultimately show ?thesis by (rule converse_rtranclp_into_rtranclp)
qed

text \<open>Every step of whole requests and whole rounds is a run of the threads.\<close>

lemma step_preempted:
  assumes "uds_step c e s t" "periodic_inv (periodic_st s)"
  shows "(preempted c e)\<^sup>*\<^sup>* (s, Poll, Poll) (t, Poll, Poll)"
  using assms(1)
proof cases
  case (poll buf l)
  then show ?thesis by (auto intro: preempted.silent)
next
  case (request buf len l)
  then show ?thesis by (simp add: preempted_request)
next
  case periodic
  then show ?thesis using preempted_round [OF assms(2)] by simp
next
  case background
  then show ?thesis by (auto intro: preempted.other)
qed

lemma threads_reach_run:
  assumes "(preempted c e)\<^sup>*\<^sup>* x y" "threads_reach c e (fst x) (fst (snd x)) (snd (snd x))"
  shows "threads_reach c e (fst y) (fst (snd y)) (snd (snd y))"
  using assms
proof (induction rule: rtranclp_induct)
  case (step y z)
  then show ?case by (cases y; cases z) (auto intro: threads_reach.step)
qed simp

lemma threads_reach_preempted:
  "threads_reach c e s p q \<Longrightarrow> (preempted c e)\<^sup>*\<^sup>* (s, p, q) (t, p', q') \<Longrightarrow> threads_reach c e t p' q'"
  using threads_reach_run [of c e "(s, p, q)" "(t, p', q')"] by simp

text \<open>Single actions of the receive thread.\<close>

lemma preempted_act: "preempted c e (s, act f p, q) (f s, p, q)"
  unfolding act_def by (rule preempted.rx_action)

lemma preempted_ask: "preempted c e (s, ask b p p', q) (s, if b s then p else p', q)"
  unfolding ask_def using preempted.rx_action [of c e s id "\<lambda>s. if b s then p else p'"] by simp

lemma preempted_refresh:
  "preempted c e (s, refresh_prog c' p, q) (s, act (on_io (emit (s3_event c' (session_st s)))) p, q)"
proof -
  have "preempted c e (s, refresh_prog c' p, q) (s,
      if current_session (session_st s) \<noteq> UDS_SESSION_DEFAULT
      then act (on_io (emit (K_timer_start S3_timer (CONFIG_UDS_S3_TIMEOUT_MS c') 0))) p
      else act (on_io (emit (K_timer_stop S3_timer))) p, q)"
    unfolding refresh_prog_def by (rule preempted_ask)
  then show ?thesis by (simp add: s3_event_def split: if_splits)
qed

lemma preempted_guard:
  "(preempted c e)\<^sup>*\<^sup>* (s, guard_prog f, q) (s, act (f (session_st s) (security_st s)) Poll, q)"
proof -
  have "preempted c e (s, guard_prog f, q) (s, Act id (\<lambda>s'. act (f (session_st s) (security_st s')) Poll), q)"
    unfolding guard_prog_def using preempted.rx_action [of c e s id] by simp
  moreover have "preempted c e (s, Act id (\<lambda>s'. act (f (session_st s) (security_st s')) Poll), q)
      (s, act (f (session_st s) (security_st s)) Poll, q)"
    using preempted.rx_action [of c e s id] by simp
  ultimately show ?thesis by (meson converse_rtranclp_into_rtranclp rtranclp.rtrancl_refl)
qed

end
