(* ===== verification/Uds_Rely.thy ===== *)
theory Uds_Rely
  imports Uds_Preemption
begin

text \<open>
  Rely and guarantee. An outline gives a program an assertion before every action: what the other threads do
  keeps each of them, the action turns it into the next one, and it does nothing the others may not rely on. The
  locale \<open>interference\<close> is the contract of one thread with such outlines, \<open>two_threads\<close> that of two of them whose
  guarantees fit, and \<open>outlined_module\<close> that of the two threads of this module.
\<close>

section \<open>Outlines\<close>

text \<open>
  \<open>R\<close> is what the others may do at any time, \<open>Gr\<close> what the thread does itself, \<open>G\<close> holds at every point of
  the thread and \<open>I\<close> whenever it starts its loop again.
\<close>

definition stable :: "('s \<Rightarrow> 's \<Rightarrow> bool) \<Rightarrow> ('s \<Rightarrow> bool) \<Rightarrow> bool" where
  "stable R A \<longleftrightarrow> (\<forall>s t. A s \<longrightarrow> R s t \<longrightarrow> A t)"

inductive outline ::
    "('s \<Rightarrow> 's \<Rightarrow> bool) \<Rightarrow> ('s \<Rightarrow> 's \<Rightarrow> bool) \<Rightarrow> ('s \<Rightarrow> bool) \<Rightarrow> ('s \<Rightarrow> bool) \<Rightarrow> ('s \<Rightarrow> bool) \<Rightarrow> 's prog \<Rightarrow> bool"
  for R Gr G I where
  poll: "(\<And>s. A s \<Longrightarrow> I s) \<Longrightarrow> outline R Gr G I A Poll"
| halted: "stable R A \<Longrightarrow> (\<And>s. A s \<Longrightarrow> G s) \<Longrightarrow> outline R Gr G I A Halted"
| act: "stable R A \<Longrightarrow> (\<And>s. A s \<Longrightarrow> G s) \<Longrightarrow> (\<And>s. A s \<Longrightarrow> B s (f s) \<and> Gr s (f s)) \<Longrightarrow>
     (\<And>s. A s \<Longrightarrow> outline R Gr G I (B s) (g s)) \<Longrightarrow> outline R Gr G I A (Act f g)"

inductive_cases outline_pollE: "outline R Gr G I A Poll"
inductive_cases outline_actE: "outline R Gr G I A (Act f g)"

lemma outline_stable: "outline R Gr G I A p \<Longrightarrow> p \<noteq> Poll \<Longrightarrow> stable R A"
  by (auto elim: outline.cases)

lemma outline_act:
  assumes "stable R A" "\<And>s. A s \<Longrightarrow> G s" "\<And>s. A s \<Longrightarrow> B (f s) \<and> Gr s (f s)" "outline R Gr G I B p"
  shows "outline R Gr G I A (act f p)"
  unfolding act_def using assms by (intro outline.act [where B = "\<lambda>_. B"])

lemma outline_ask:
  assumes "stable R A" "\<And>s. A s \<Longrightarrow> G s" "\<And>s. Gr s s"
    and "\<And>s. A s \<Longrightarrow> b s \<Longrightarrow> B s" "outline R Gr G I B p"
    and "\<And>s. A s \<Longrightarrow> \<not> b s \<Longrightarrow> B' s" "outline R Gr G I B' q"
  shows "outline R Gr G I A (ask b p q)"
  unfolding ask_def using assms by (intro outline.act [where B = "\<lambda>s. if b s then B else B'"]) simp_all

lemma outline_if: "outline R Gr G I A p \<Longrightarrow> outline R Gr G I A q \<Longrightarrow> outline R Gr G I A (if b then p else q)"
  by simp

lemma outline_weaken:
  assumes "outline R Gr G I A p" "stable R A'" "\<And>s. A' s \<Longrightarrow> A s"
  shows "outline R Gr G I A' p"
  using assms(1)
proof cases
  case poll then show ?thesis using assms(3) by (auto intro: outline.poll)
next
  case halted then show ?thesis using assms(2,3) by (auto intro: outline.halted)
next
  case (act B f g) then show ?thesis using assms(2,3) by (simp only: act(1)) (intro outline.act [where B = B]; blast)
qed

section \<open>One thread among others\<close>

locale interference =
  fixes R :: "'s \<Rightarrow> 's \<Rightarrow> bool" and Gr :: "'s \<Rightarrow> 's \<Rightarrow> bool" and G :: "'s \<Rightarrow> bool" and I :: "'s \<Rightarrow> bool"
  assumes idle_stable: "stable R I"
    and idle_good: "I s \<Longrightarrow> G s"
begin

text \<open>The program is at a place of an outline whose assertion holds.\<close>

definition held :: "'s \<Rightarrow> 's prog \<Rightarrow> bool" where
  "held s p \<longleftrightarrow> (\<exists>A. outline R Gr G I A p \<and> A s)"

lemma heldI: "outline R Gr G I A p \<Longrightarrow> A s \<Longrightarrow> held s p"
  unfolding held_def by blast

lemma held_idle: "held s Poll \<longleftrightarrow> I s"
  unfolding held_def by (auto elim: outline_pollE intro: exI [of _ I] outline.poll)

lemma held_good: "held s p \<Longrightarrow> G s"
  unfolding held_def using idle_good by (auto elim: outline.cases)

lemma held_other:
  assumes "held s p" "R s t"
  shows "held t p"
proof (cases "p = Poll")
  case True
  then show ?thesis using assms idle_stable by (auto simp: held_idle stable_def)
next
  case False
  obtain A where A: "outline R Gr G I A p" "A s" using assms(1) by (auto simp: held_def)
  have "stable R A" using A(1) False by (rule outline_stable)
  then have "A t" using A(2) assms(2) by (simp add: stable_def)
  with A(1) show ?thesis by (rule heldI)
qed

lemma held_action: "held s (Act f g) \<Longrightarrow> held (f s) (g s) \<and> Gr s (f s)"
  unfolding held_def by (auto elim!: outline_actE)

end

section \<open>Two threads\<close>

text \<open>What each of them guarantees is what the other relies on.\<close>

locale two_threads =
  first: interference R1 Gr1 G1 I1 + second: interference R2 Gr2 G2 I2
  for R1 Gr1 R2 Gr2 :: "'s \<Rightarrow> 's \<Rightarrow> bool" and G1 I1 G2 I2 :: "'s \<Rightarrow> bool" +
  assumes first_fits: "Gr1 s t \<Longrightarrow> G1 s \<Longrightarrow> G1 t \<Longrightarrow> R2 s t"
    and second_fits: "Gr2 s t \<Longrightarrow> G2 s \<Longrightarrow> G2 t \<Longrightarrow> R1 s t"
begin

definition both_held :: "'s \<Rightarrow> 's prog \<Rightarrow> 's prog \<Rightarrow> bool" where
  "both_held s p q \<longleftrightarrow> first.held s p \<and> second.held s q"

lemma both_other: "both_held s p q \<Longrightarrow> R1 s t \<Longrightarrow> R2 s t \<Longrightarrow> both_held t p q"
  unfolding both_held_def using first.held_other second.held_other by blast

lemma both_first: "both_held s (Act f g) q \<Longrightarrow> both_held (f s) (g s) q"
  using first.held_action first.held_good first_fits second.held_other unfolding both_held_def by blast

lemma both_second: "both_held s p (Act f g) \<Longrightarrow> both_held (f s) p (g s)"
  using second.held_action second.held_good second_fits first.held_other unfolding both_held_def by blast

end

section \<open>The threads of the module\<close>

text \<open>
  Outlines of a request and of a round that fit: then the two threads are at a place of an outline on every
  interleaving, once they are when the module has booted.
\<close>

locale outlined_module = two_threads R1 Gr1 R2 Gr2 G1 I1 G2 I2
  for R1 Gr1 R2 Gr2 :: "system \<Rightarrow> system \<Rightarrow> bool" and G1 I1 G2 I2 :: "system \<Rightarrow> bool" +
  fixes c :: kconfig and e :: env
  assumes background_fits: "background e s t \<Longrightarrow> R1 s t \<and> R2 s t"
    and poll_fits: "length buf = length (uds_rx_buf s) \<Longrightarrow> I1 s \<Longrightarrow> I1 (polled l buf s) \<and> R2 s (polled l buf s)"
    and request_outlined: "outline R1 Gr1 G1 I1 I1 (request_prog c e req len a)"
    and round_outlined: "outline R2 Gr2 G2 I2 I2 (round_prog e)"
begin

lemma reach_held:
  assumes "threads_reach c e s p q" "first.held (booted c e) (bind_prog c e)" "I2 (booted c e)"
  shows "both_held s p q"
  using assms(1)
proof (induction rule: threads_reach.induct)
  case boot
  then show ?case using assms(2,3) by (simp add: both_held_def second.held_idle)
next
  case (step s p q t p' q')
  from step(2) show ?case
  proof cases
    case other
    then show ?thesis using step.IH background_fits by (auto intro: both_other)
  next
    case (silent buf l)
    then show ?thesis
      using step.IH poll_fits second.held_other by (simp add: both_held_def first.held_idle) blast
  next
    case (receive buf len l)
    then have "I1 t" "second.held t q'"
      using step.IH poll_fits second.held_other by (auto simp: both_held_def first.held_idle)
    then show ?thesis using receive first.heldI [OF request_outlined] by (simp add: both_held_def)
  next
    case (rx_action f g)
    then show ?thesis using step.IH both_first by simp
  next
    case round
    then show ?thesis using step.IH second.heldI [OF round_outlined] by (simp add: both_held_def second.held_idle)
  next
    case (periodic_action f g)
    then show ?thesis using step.IH both_second by simp
  qed
qed

end

end
