(* ===== verification/Uds_Invariants.thy ===== *)
theory Uds_Invariants
  imports Uds_System
begin

text \<open>
  How invariants of the running module are proved: one induction rule with a case for each step, the state after
  boot, and what requests and thread rounds leave alone. The invariants on the buffers and on the
  session and lockout timers come first, since the others use them.
\<close>

section \<open>Proving an invariant\<close>

lemma reachable_invariant [consumes 1, case_names boot poll request periodic s3 lockout reset
    routine_tick clear_tick routine_begin routine_end clear_begin clear_done clear_end work_return]:
  assumes "reachable c e s"
    and "fst (uds_init c e (system_0 c)) = 0 \<Longrightarrow> I (booted c e)"
    and "\<And>s l buf. reachable c e s \<Longrightarrow> I s \<Longrightarrow> length buf = length (uds_rx_buf s) \<Longrightarrow> I (polled l buf s)"
    and "\<And>s a buf len. reachable c e s \<Longrightarrow> I s \<Longrightarrow> 0 < len \<Longrightarrow> len \<le> length buf \<Longrightarrow>
      I (uds_dispatch c e buf len a (accepted c a s))"
    and "\<And>s. reachable c e s \<Longrightarrow> I s \<Longrightarrow> I (on_periodic (uds_periodic_thread_round e) s)"
    and "\<And>s. reachable c e s \<Longrightarrow> I s \<Longrightarrow> timer_running S3_timer (tr s) \<Longrightarrow> I (s3_expiry s)"
    and "\<And>s. reachable c e s \<Longrightarrow> I s \<Longrightarrow> timer_running Lockout_timer (tr s) \<Longrightarrow> I (lockout_expiry s)"
    and "\<And>s. reachable c e s \<Longrightarrow> I s \<Longrightarrow> timer_running Reset_timer (tr s) \<Longrightarrow> I (reset_expiry s)"
    and "\<And>s. reachable c e s \<Longrightarrow> I s \<Longrightarrow> timer_running Routine_nrc78_timer (tr s) \<Longrightarrow> I (routine_tick s)"
    and "\<And>s. reachable c e s \<Longrightarrow> I s \<Longrightarrow> timer_running Clear_nrc78_timer (tr s) \<Longrightarrow> I (clear_tick s)"
    and "\<And>s ws. reachable c e s \<Longrightarrow> I s \<Longrightarrow> wq s = Wq_idle \<Longrightarrow> work_queue (tr s) = Routine_work # ws \<Longrightarrow>
      I (routine_begin e s)"
    and "\<And>s ret info. reachable c e s \<Longrightarrow> I s \<Longrightarrow> wq s = Wq_routine_hook ret info \<Longrightarrow> I (routine_end ret info s)"
    and "\<And>s ws. reachable c e s \<Longrightarrow> I s \<Longrightarrow> wq s = Wq_idle \<Longrightarrow> work_queue (tr s) = Clear_dtc_work # ws \<Longrightarrow>
      I (clear_begin e s)"
    and "\<And>s. reachable c e s \<Longrightarrow> I s \<Longrightarrow> wq s = Wq_clear_hook \<Longrightarrow> I (clear_done s)"
    and "\<And>s. reachable c e s \<Longrightarrow> I s \<Longrightarrow> wq s = Wq_clear_sleep \<Longrightarrow> I (clear_end s)"
    and "\<And>s w. reachable c e s \<Longrightarrow> I s \<Longrightarrow> wq s = Wq_sent w \<Longrightarrow> I (work_return w s)"
  shows "I s"
  using assms(1)
proof (induction rule: reachable.induct)
  case boot
  then show ?case by (rule assms(2))
next
  case (step s t)
  from step(2) show ?case
  proof cases
    case (poll buf l)
    then show ?thesis using step by (simp add: assms(3))
  next
    case (request buf len l)
    have "I (polled l buf s)" using step request by (intro assms(3)) simp_all
    moreover have "reachable c e (polled l buf s)"
      using step(1) request by (blast intro: reachable.step uds_step.poll)
    ultimately show ?thesis
      using request by (auto simp: received_eq intro: assms(4))
  next
    case periodic
    then show ?thesis by (simp add: step assms(5))
  next
    case background
    then show ?thesis by cases (simp_all add: step assms(6-))
  qed
qed

section \<open>The state after boot\<close>

lemma system_0_sel [simp]:
  "io_st (system_0 c) = io_0 c" "session_st (system_0 c) = session_state_0"
  "security_st (system_0 c) = security_state_0 c" "reset_st (system_0 c) = reset_state_0"
  "routine_st (system_0 c) = routine_state_0" "clear_st (system_0 c) = clear_state_0"
  "flash_st (system_0 c) = flash_state_0" "dyn_st (system_0 c) = dyn_map_0"
  "periodic_st (system_0 c) = periodic_state_0"
  "uds_rx_buf (system_0 c) = replicate (CONFIG_UDS_BUFF_SIZE c) 0" "wq (system_0 c) = Wq_idle"
  by (simp_all add: system_0_def uds_state_0_def uds_state.defs)

lemma init_ok_iff: "fst (uds_init c e s) = 0 \<longleftrightarrow> device_is_ready e (trace (io_st s)) Can_dev"
  by (simp add: uds_init_def Let_def)

definition io_boot :: "kconfig \<Rightarrow> io" where
  "io_boot c = emit (K_timer_init S3_timer) (emit Can_start (emit (Device_is_ready Can_dev) (io_0 c)))"

lemma booted_sel:
  assumes "fst (uds_init c e (system_0 c)) = 0"
  defines "p \<equiv> uds_security_init c e (security_state_0 c, io_boot c)"
  shows "session_st (booted c e) = session_state_0"
    "security_st (booted c e) = fst p"
    "reset_st (booted c e) = reset_state_0" "routine_st (booted c e) = routine_state_0"
    "clear_st (booted c e) = clear_state_0" "flash_st (booted c e) = flash_state_0"
    "dyn_st (booted c e) = dyn_map_0" "periodic_st (booted c e) = periodic_state_0"
    "length (uds_rx_buf (booted c e)) = CONFIG_UDS_BUFF_SIZE c" "wq (booted c e) = Wq_idle"
    "tr (booted c e) = [K_thread_create UDS_RX_THREAD_STACK_SIZE UDS_RX_THREAD_PRIORITY,
       K_timer_init Clear_nrc78_timer, K_work_init Clear_dtc_work,
       K_timer_init Reset_timer, K_timer_init Routine_nrc78_timer, K_work_init Routine_work]
       @ trace (snd p)"
    "uds_tx_buf (io_st (booted c e)) = uds_tx_buf (snd p)"
    "mem_fault (io_st (booted c e)) = mem_fault (snd p)"
  using assms(1) unfolding init_ok_iff p_def
  by (simp_all add: booted_def uds_init_def Let_def uds_session_init_def uds_routine_init_def
      uds_reset_init_def uds_clear_dtc_init_def io_boot_def session_state_0_def
      uds_flash_pipeline_init_def flash_state_0_def on_io_def on_session_def on_security_def case_prod_beta)

lemma io_boot_sel [simp]:
  "trace (io_boot c) = [K_timer_init S3_timer, Can_start, Device_is_ready Can_dev]"
  "uds_tx_buf (io_boot c) = replicate (CONFIG_UDS_BUFF_SIZE c) 0" "\<not> mem_fault (io_boot c)"
  by (simp_all add: io_boot_def io_0_def)

section \<open>The events of the initialisation\<close>

fun init_event :: "kconfig \<Rightarrow> event \<Rightarrow> bool" where
  "init_event c (K_timer_init t) \<longleftrightarrow> True"
| "init_event c (K_timer_start t d p) \<longleftrightarrow> t = Lockout_timer \<and> d = CONFIG_UDS_SEC_LOCKOUT_TIME_MS c \<and> p = 0"
| "init_event c (K_work_init w) \<longleftrightarrow> True"
| "init_event c (Device_is_ready d) \<longleftrightarrow> True"
| "init_event c Can_start \<longleftrightarrow> True"
| "init_event c (K_thread_create n p) \<longleftrightarrow> True"
| "init_event c Flash_get_page_info_by_offs \<longleftrightarrow> True"
| "init_event c Nvs_mount \<longleftrightarrow> True"
| "init_event c (Nvs_read fs k n) \<longleftrightarrow> fs = Security_fs"
| "init_event c _ \<longleftrightarrow> False"

lemma security_init_io [simp]:
  "uds_tx_buf (snd (uds_security_init c e (ss, i))) = uds_tx_buf i"
  "generated_seed (fst (uds_security_init c e (ss, i))) = generated_seed ss"
  by (simp_all add: uds_security_init_def Let_def case_prod_beta)

lemma security_init_events:
  "\<exists>evs. trace (snd (uds_security_init c e (ss, i))) = evs @ trace i \<and> (\<forall>ev \<in> set evs. init_event c ev)"
  by (simp add: uds_security_init_def Let_def case_prod_beta)

lemma security_init_timer:
  "security_status ss = UDS_SEC_LOCKED \<Longrightarrow>
   security_status (fst (uds_security_init c e (ss, i))) \<in> {UDS_SEC_LOCKED, UDS_SEC_BRUTE_FORCE_LOCKOUT} \<and>
   timer_mode Lockout_timer (trace (snd (uds_security_init c e (ss, i)))) =
     (if security_status (fst (uds_security_init c e (ss, i))) = UDS_SEC_BRUTE_FORCE_LOCKOUT
      then Some 0 else None)"
  by (simp add: uds_security_init_def Let_def case_prod_beta)

lemma boot_trace:
  assumes "fst (uds_init c e (system_0 c)) = 0"
  shows "\<forall>ev \<in> set (tr (booted c e)). init_event c ev"
  using security_init_events [of c e "security_state_0 c" "io_boot c"] booted_sel(11) [OF assms]
  by auto

lemma init_event_other:
  "init_event c ev \<Longrightarrow> t \<noteq> Lockout_timer \<Longrightarrow> timer_mode t (ev # evs) = (if ev = K_timer_init t then None else timer_mode t evs)"
  by (cases ev) auto

lemma boot_timer_other:
  "\<forall>ev \<in> set evs. init_event c ev \<Longrightarrow> t \<noteq> Lockout_timer \<Longrightarrow> timer_mode t evs = None"
  by (induction evs) (auto simp: init_event_other [of c])

lemma boot_work: "\<forall>ev \<in> set evs. init_event c ev \<Longrightarrow> \<not> work_busy w evs \<and> work_queue evs = []"
proof (induction evs)
  case (Cons ev evs) then show ?case by (cases ev) auto
qed simp

section \<open>Buffers\<close>

definition buffers_ok :: "kconfig \<Rightarrow> system \<Rightarrow> bool" where
  "buffers_ok c s \<longleftrightarrow>
     length (uds_tx_buf (io_st s)) = CONFIG_UDS_BUFF_SIZE c \<and>
     length (uds_rx_buf s) = CONFIG_UDS_BUFF_SIZE c \<and> periodic_inv (periodic_st s)"

lemma kconfig_buff: "kconfig_ok c \<Longrightarrow> 64 \<le> CONFIG_UDS_BUFF_SIZE c"
  by (simp add: kconfig_ok_def)

lemma dispatch_tx_length:
  assumes "uds_tx_buf (io_st s) \<noteq> []"
  shows "length (uds_tx_buf (io_st (uds_dispatch c e req len a s))) = length (uds_tx_buf (io_st s))"
  using dispatch_served [OF assms, of req c e len a] by (simp add: served_def)

lemma periodic_inv_round:
  assumes "periodic_inv ps"
  shows "periodic_inv (fst (uds_periodic_thread_round e (ps, i)))"
    and "sampled (ps, i) (uds_periodic_thread_round e (ps, i))"
  using assms sampled_round [of "(ps, i)" e] by (simp_all add: periodic_inv_def sampled_def)

lemma reachable_buffers:
  assumes "reachable c e s" "kconfig_ok c"
  shows "buffers_ok c s"
  using assms(1)
proof (induction rule: reachable_invariant)
  case boot
  then show ?case by (simp add: booted_sel buffers_ok_def)
next
  case (request s a buf len)
  then have "uds_tx_buf (io_st (accepted c a s)) \<noteq> []"
    using kconfig_buff [OF assms(2)] by (auto simp: buffers_ok_def)
  then show ?case
    using request dispatch_tx_length [of "accepted c a s" c e buf len a]
    by (simp add: buffers_ok_def dispatch_periodic periodic_inv_handle)
next
  case (periodic s)
  then show ?case
    using periodic_inv_round [where ps = "periodic_st s" and e = e and i = "io_st s"] by (simp add: buffers_ok_def sampled_def)
qed (simp_all add: buffers_ok_def)

lemma reachable_tx_buf:
  assumes "reachable c e s" "kconfig_ok c"
  shows "uds_tx_buf (io_st s) \<noteq> []" "length (uds_tx_buf (io_st s)) = CONFIG_UDS_BUFF_SIZE c"
    "periodic_inv (periodic_st s)"
  using reachable_buffers [OF assms] kconfig_buff [OF assms(2)] by (auto simp: buffers_ok_def)

section \<open>What a thread round and a request add to the trace\<close>

lemma round_trace:
  assumes "periodic_inv (periodic_st s)"
  obtains evs where "tr (on_periodic (uds_periodic_thread_round e) s) = evs @ tr s"
    and "\<forall>ev \<in> set evs. periodic_event ev"
  using periodic_inv_round(2) [OF assms, where e = e and i = "io_st s"] by (auto simp: sampled_def grows_def)

text \<open>
  A function of the trace that no event of a set of events changes does not change in a step that only
  adds such events.
\<close>

definition ignores :: "(trace \<Rightarrow> 'b) \<Rightarrow> (event \<Rightarrow> bool) \<Rightarrow> bool" where
  "ignores F P \<longleftrightarrow> (\<forall>ev evs. P ev \<longrightarrow> F (ev # evs) = F evs)"

lemma ignores_append: "ignores F P \<Longrightarrow> \<forall>ev \<in> set evs. P ev \<Longrightarrow> F (evs @ evs0) = F evs0"
  by (induction evs) (simp_all add: ignores_def)

lemma ignores_round:
  assumes "ignores F periodic_event" "periodic_inv (periodic_st s)"
  shows "F (trace (snd (uds_periodic_thread_round e (periodic_st s, io_st s)))) = F (tr s)"
  by (rule round_trace [OF assms(2), of e]) (simp add: ignores_append [OF assms(1)])

text \<open>The events of a request for one service.\<close>

definition service_event :: "u8 \<Rightarrow> event \<Rightarrow> bool" where
  "service_event sid ev \<longleftrightarrow>
     (case ev of Isotp_send f \<Rightarrow> f \<noteq> [] \<and> (hd f = sid + 0x40 \<or> length f = 3 \<and> hd f = 0x7F \<and> f ! 1 = sid)
      | _ \<Rightarrow> may_call sid ev)"

lemma served_ignores:
  assumes "served sid i j" "ignores F (service_event sid)"
  shows "F (trace j) = F (trace i)"
proof -
  have "service_event sid ev" if "ev \<in> set (new_events i j)" for ev
  proof (cases ev)
    case (Isotp_send f)
    then have "is_answer sid (current_msg_addressing i) f" using assms(1) that by (simp add: served_def)
    then show ?thesis using Isotp_send by (cases f) (auto simp: service_event_def is_answer_def)
  qed (use assms(1) that in \<open>auto simp: served_def service_event_def\<close>)
  moreover have "trace j = new_events i j @ trace i" using assms(1) by (simp add: served_def grows_def)
  ultimately show ?thesis using ignores_append [OF assms(2), of "new_events i j"] by simp
qed

lemma ignores_dispatch:
  assumes "ignores F (service_event (req ! 0))" "uds_tx_buf (io_st s) \<noteq> []"
  shows "F (trace (io_st (uds_dispatch c e req len a s))) = F (trace (io_st s))"
  by (rule served_ignores [OF dispatch_served [OF assms(2)] assms(1)])

lemma service_event_cases: "service_event sid ev \<Longrightarrow> is_send ev \<or> may_call sid ev"
  by (cases ev) (simp_all add: service_event_def)

lemma ignores_timer [simp]:
  "ignores (timer_mode t) periodic_event"
  "sid \<noteq> timer_service t \<Longrightarrow> ignores (timer_mode t) (service_event sid)"
  "ignores (timer_mode t) is_send"
proof -
  have "periodic_event ev \<Longrightarrow> timer_mode t (ev # evs) = timer_mode t evs" for ev evs
    by (cases ev) simp_all
  then show "ignores (timer_mode t) periodic_event" by (simp add: ignores_def)
  have "is_send ev \<Longrightarrow> timer_mode t (ev # evs) = timer_mode t evs" for ev evs
    by (cases ev) simp_all
  then show "ignores (timer_mode t) is_send" by (simp add: ignores_def)
next
  assume "sid \<noteq> timer_service t"
  then show "ignores (timer_mode t) (service_event sid)"
    unfolding ignores_def
    using timer_mode_other service_events_other(1) [OF service_event_cases] by blast
qed

lemma ignores_work [simp]:
  "ignores (work_busy w) periodic_event" "ignores (queued w) periodic_event"
  "sid \<noteq> work_service w \<Longrightarrow> ignores (work_busy w) (service_event sid)"
  "sid \<noteq> work_service w \<Longrightarrow> ignores (queued w) (service_event sid)"
proof -
  have "periodic_event ev \<Longrightarrow> work_busy w (ev # evs) = work_busy w evs \<and> queued w (ev # evs) = queued w evs" for ev evs
    by (cases ev) simp_all
  then show "ignores (work_busy w) periodic_event" "ignores (queued w) periodic_event" by (simp_all add: ignores_def)
next
  assume "sid \<noteq> work_service w"
  then have "\<not> about_work w ev" if "service_event sid ev" for ev
    using service_events_other(2) [OF service_event_cases [OF that]] by blast
  then show "ignores (work_busy w) (service_event sid)" "ignores (queued w) (service_event sid)"
    by (simp_all add: ignores_def work_busy_other queued_other)
qed

section \<open>The session timer\<close>

lemma timer_mode_s3_event:
  "timer_mode S3_timer (s3_event c ses # evs) =
     (if current_session ses = UDS_SESSION_DEFAULT then None else Some 0)"
  "t \<noteq> S3_timer \<Longrightarrow> timer_mode t (s3_event c ses # evs) = timer_mode t evs"
  "work_busy w (s3_event c ses # evs) = work_busy w evs" "work_queue (s3_event c ses # evs) = work_queue evs"
  by (simp_all add: s3_event_def)

definition s3_ok :: "system \<Rightarrow> bool" where
  "s3_ok s \<longleftrightarrow> timer_mode S3_timer (tr s) =
     (if current_session (session_st s) = UDS_SESSION_DEFAULT then None else Some 0)"

lemma session_case_trace:
  "trace (io_st (uds_session_case c req len s)) =
     (if len < 2 then nrc_trace (req ! 0) UDS_NRC_INCORRECT_LENGTH_OR_INVALID_FORMAT
            (current_msg_addressing (io_st s)) @ trace (io_st s)
      else if req ! 1 \<noteq> 1 \<and> req ! 1 \<noteq> 2 \<and> req ! 1 \<noteq> 3
      then nrc_trace (req ! 0) UDS_NRC_SUB_FUNCTION_NOT_SUPPORTED
            (current_msg_addressing (io_st s)) @ trace (io_st s)
      else Isotp_send (take 2 (buf_put 1 [req ! 1] (buf_put 0 [req ! 0 + 0x40] (uds_tx_buf (io_st s)))))
        # s3_event c ((session_st s)\<lparr>current_session := uds_session_type_of (req ! 1)\<rparr>)
        # trace (io_st s))"
  by (simp add: uds_session_case_def Let_def uds_session_set_def refresh_timer_eq)

lemma dispatch_0x10:
  "req ! 0 = 0x10 \<Longrightarrow> uds_dispatch c e req len a s = uds_session_case c req len s"
  by (simp add: uds_dispatch_def Let_def)

lemma timer_mode_nrc [simp]: "timer_mode t (nrc_trace sid nrc a @ evs) = timer_mode t evs"
  by (simp add: nrc_trace_def)

lemma work_nrc [simp]:
  "work_busy w (nrc_trace sid nrc a @ evs) = work_busy w evs"
  "work_queue (nrc_trace sid nrc a @ evs) = work_queue evs"
  by (simp_all add: nrc_trace_def)

lemma s3_ok_dispatch:
  assumes "uds_tx_buf (io_st s) \<noteq> []"
  shows "s3_ok (uds_dispatch c e req len a (accepted c a s))"
proof (cases "req ! 0 = 0x10")
  case True
  then show ?thesis
    by (auto simp: dispatch_0x10 s3_ok_def session_case_trace timer_mode_s3_event dispatch_session
        valid_session_request_def uds_session_case_def Let_def uds_session_set_def case_prod_beta
        refresh_timer_eq)
next
  case False
  then have "timer_mode S3_timer (tr (uds_dispatch c e req len a (accepted c a s)))
      = timer_mode S3_timer (s3_event c (session_st s) # tr s)"
    using assms ignores_dispatch [of "timer_mode S3_timer" req "accepted c a s" c e len a] by simp
  with False show ?thesis
    by (simp add: s3_ok_def timer_mode_s3_event dispatch_session valid_session_request_def)
qed

lemma reachable_s3:
  assumes "reachable c e s" "kconfig_ok c"
  shows "s3_ok s"
  using assms(1)
proof (induction rule: reachable_invariant)
  case boot
  then show ?case
    using boot_timer_other [OF boot_trace [OF boot], of S3_timer]
    by (simp add: s3_ok_def booted_sel session_state_0_def)
next
  case (request s a buf len)
  then show ?case using reachable_tx_buf [OF request(1) assms(2)] by (intro s3_ok_dispatch)
next
  case (periodic s)
  then show ?case
    using reachable_tx_buf [OF periodic(1) assms(2)] by (simp add: s3_ok_def ignores_round [where F = "timer_mode S3_timer"])
qed (auto simp: s3_ok_def timer_running_def split: option.splits if_splits)

section \<open>The lockout timer\<close>

definition lockout_ok :: "system \<Rightarrow> bool" where
  "lockout_ok s \<longleftrightarrow> timer_mode Lockout_timer (tr s) =
     (if security_status (security_st s) = UDS_SEC_BRUTE_FORCE_LOCKOUT then Some 0 else None)"

lemma dispatch_0x27:
  "req ! 0 = 0x27 \<Longrightarrow> uds_dispatch c e req len a s =
     (if a = UDS_ADDR_FUNCTIONAL then on_io (uds_send_nrc 0x27 UDS_NRC_CONDITIONS_NOT_CORRECT) s
      else on_security (uds_security_handle_request c e Uds_send_response Uds_send_nrc req len) s)"
  by (simp add: uds_dispatch_def Let_def)

lemma security_handle_timer:
  assumes "timer_mode Lockout_timer (trace i) =
     (if security_status ss = UDS_SEC_BRUTE_FORCE_LOCKOUT then Some 0 else None)"
  shows "timer_mode Lockout_timer (trace (snd (uds_security_handle_request c e send nrc req len (ss, i)))) =
     (if security_status (fst (uds_security_handle_request c e send nrc req len (ss, i)))
          = UDS_SEC_BRUTE_FORCE_LOCKOUT then Some 0 else None)"
  using assms by (simp add: security_handle_defs)

lemma lockout_ok_dispatch:
  assumes "uds_tx_buf (io_st s) \<noteq> []" "lockout_ok s"
  shows "lockout_ok (uds_dispatch c e req len a (accepted c a s))"
proof (cases "req ! 0 = 0x27")
  case True
  have "timer_mode Lockout_timer (trace (io_st (accepted c a s))) =
      (if security_status (security_st s) = UDS_SEC_BRUTE_FORCE_LOCKOUT then Some 0 else None)"
    using assms(2) by (simp add: lockout_ok_def timer_mode_s3_event)
  from security_handle_timer [OF this] True assms(2) show ?thesis
    by (simp add: dispatch_0x27 lockout_ok_def timer_mode_s3_event)
next
  case False
  then have "timer_mode Lockout_timer (tr (uds_dispatch c e req len a (accepted c a s)))
      = timer_mode Lockout_timer (tr s)"
    using assms(1) ignores_dispatch [of "timer_mode Lockout_timer" req "accepted c a s" c e len a]
    by (simp add: timer_mode_s3_event)
  with False assms(2) show ?thesis
    by (simp add: lockout_ok_def dispatch_security uds_security_reset_lock_def)
qed

lemma reachable_lockout:
  assumes "reachable c e s" "kconfig_ok c"
  shows "lockout_ok s"
  using assms(1)
proof (induction rule: reachable_invariant)
  case boot
  then show ?case
    using security_init_timer [of "security_state_0 c" c e "io_boot c"]
    by (simp add: lockout_ok_def booted_sel security_state_0_def)
next
  case (request s a buf len)
  then show ?case using reachable_tx_buf [OF request(1) assms(2)] by (intro lockout_ok_dispatch)
next
  case (periodic s)
  then show ?case
    using reachable_tx_buf [OF periodic(1) assms(2)] by (simp add: lockout_ok_def ignores_round [where F = "timer_mode Lockout_timer"])
qed (auto simp: lockout_ok_def timer_running_def uds_security_reset_lock_def split: option.splits if_splits)

end
