(* ===== verification/Uds_Access.thy ===== *)
theory Uds_Access
  imports Uds_Invariants
begin

text \<open>
  Security access over whole runs: who is unlocked has proved a key, keys are checked against the seed
  that was sent, the attempts are bounded, protected hooks are reached only by an authenticated tester, and
  neither the attempts nor a lockout are forgotten in a restart.
\<close>

section \<open>What the trace says of keys\<close>

text \<open>The keys rejected since the last one accepted or the last end of a lockout.\<close>

fun failures :: "env \<Rightarrow> trace \<Rightarrow> nat" where
  "failures e [] = 0"
| "failures e (App_verify_key_krypto l sd k # evs) =
     (if uds_app_verify_key_krypto (app e) evs l sd k = 0 then 0 else Suc (failures e evs))"
| "failures e (K_timer_expired t # evs) = (if t = Lockout_timer then 0 else failures e evs)"
| "failures e (_ # evs) = failures e evs"

text \<open>
  The last key checked was accepted, and since then the session has not changed: neither was a session
  request answered with a positive frame, nor did the S3 timer expire.
\<close>

fun authenticated :: "env \<Rightarrow> trace \<Rightarrow> bool" where
  "authenticated e [] \<longleftrightarrow> False"
| "authenticated e (App_verify_key_krypto l sd k # evs) \<longleftrightarrow>
     uds_app_verify_key_krypto (app e) evs l sd k = 0"
| "authenticated e (K_timer_expired t # evs) \<longleftrightarrow>
     t \<noteq> S3_timer \<and> t \<noteq> Lockout_timer \<and> authenticated e evs"
| "authenticated e (Isotp_send f # evs) \<longleftrightarrow> \<not> (f \<noteq> [] \<and> hd f = 0x50) \<and> authenticated e evs"
| "authenticated e (_ # evs) \<longleftrightarrow> authenticated e evs"

text \<open>The seed in the last frame that answered a seed request, and that every key was checked against it.\<close>

fun last_seed :: "trace \<Rightarrow> u8 list option" where
  "last_seed [] = None"
| "last_seed (Isotp_send f # evs) =
     (if 2 < length f \<and> hd f = 0x67 then Some (drop 2 f) else last_seed evs)"
| "last_seed (_ # evs) = last_seed evs"

fun seeds_match :: "trace \<Rightarrow> bool" where
  "seeds_match [] \<longleftrightarrow> True"
| "seeds_match (App_verify_key_krypto l sd k # evs) \<longleftrightarrow> last_seed evs = Some sd \<and> seeds_match evs"
| "seeds_match (_ # evs) \<longleftrightarrow> seeds_match evs"

lemma sid_answer: "sid + 0x40 = 0x67 \<longleftrightarrow> sid = 0x27" "sid + 0x40 = 0x50 \<longleftrightarrow> sid = 0x10" for sid :: u8
  using add_right_cancel [of sid "0x40" "0x27"] add_right_cancel [of sid "0x40" "0x10"] by simp_all

lemma ignores_failures [simp]:
  "ignores (failures e) periodic_event"
  "sid \<noteq> 0x27 \<Longrightarrow> ignores (failures e) (service_event sid)"
proof -
  have "periodic_event ev \<Longrightarrow> failures e (ev # evs) = failures e evs" for ev evs
    by (cases ev) simp_all
  then show "ignores (failures e) periodic_event" by (simp add: ignores_def)
next
  assume "sid \<noteq> 0x27"
  then have "service_event sid ev \<Longrightarrow> failures e (ev # evs) = failures e evs" for ev evs
    by (cases ev) (simp_all add: service_event_def)
  then show "ignores (failures e) (service_event sid)" by (simp add: ignores_def)
qed

lemma ignores_authenticated [simp]:
  "ignores (authenticated e) periodic_event"
  "sid \<noteq> 0x27 \<Longrightarrow> sid \<noteq> 0x10 \<Longrightarrow> ignores (authenticated e) (service_event sid)"
proof -
  have "periodic_event ev \<Longrightarrow> authenticated e (ev # evs) = authenticated e evs" for ev evs
    by (cases ev) simp_all
  then show "ignores (authenticated e) periodic_event" by (simp add: ignores_def)
next
  assume "sid \<noteq> 0x27" "sid \<noteq> 0x10"
  then have "service_event sid ev \<Longrightarrow> authenticated e (ev # evs) = authenticated e evs" for ev evs
    by (cases ev) (auto simp: service_event_def sid_answer)
  then show "ignores (authenticated e) (service_event sid)" by (simp add: ignores_def)
qed

lemma ignores_last_seed [simp]:
  "ignores last_seed periodic_event"
  "sid \<noteq> 0x27 \<Longrightarrow> ignores last_seed (service_event sid)"
proof -
  have "periodic_event ev \<Longrightarrow> last_seed (ev # evs) = last_seed evs" for ev evs
    by (cases ev) auto
  then show "ignores last_seed periodic_event" by (simp add: ignores_def)
next
  assume "sid \<noteq> 0x27"
  then have "service_event sid ev \<Longrightarrow> last_seed (ev # evs) = last_seed evs" for ev evs
    by (cases ev) (auto simp: service_event_def sid_answer)
  then show "ignores last_seed (service_event sid)" by (simp add: ignores_def)
qed

lemma ignores_seeds_match [simp]:
  "ignores seeds_match periodic_event"
  "sid \<noteq> 0x27 \<Longrightarrow> ignores seeds_match (service_event sid)"
proof -
  have "periodic_event ev \<Longrightarrow> seeds_match (ev # evs) = seeds_match evs" for ev evs
    by (cases ev) auto
  then show "ignores seeds_match periodic_event" by (simp add: ignores_def)
next
  assume "sid \<noteq> 0x27"
  then have "service_event sid ev \<Longrightarrow> seeds_match (ev # evs) = seeds_match evs" for ev evs
    by (cases ev) (auto simp: service_event_def)
  then show "ignores seeds_match (service_event sid)" by (simp add: ignores_def)
qed

section \<open>The invariant of the security component\<close>

text \<open>On the component's state and the trace.\<close>

definition sec_inv :: "kconfig \<Rightarrow> env \<Rightarrow> security_state \<Rightarrow> trace \<Rightarrow> bool" where
  "sec_inv c e ss evs \<longleftrightarrow>
     seed_ok c ss \<and> counter_ok c ss \<and>
     failures e evs \<le> unat (failed_attempts_counter ss) \<and>
     (security_status ss = UDS_SEC_UNLOCKED \<longrightarrow> authenticated e evs) \<and>
     (security_status ss = UDS_SEC_SEED_REQUESTED \<longrightarrow> last_seed evs = Some (generated_seed ss)) \<and>
     seeds_match evs"

lemma sec_inv_nrc:
  "sec_inv c e ss (nrc_trace sid nrc a @ evs) = sec_inv c e ss evs"
  by (simp add: sec_inv_def nrc_trace_def)

lemma sec_inv_s3_event: "sec_inv c e ss (s3_event c ses # evs) = sec_inv c e ss evs"
  by (simp add: sec_inv_def s3_event_def)

lemma sec_inv_reset_lock:
  "sec_inv c e ss evs \<Longrightarrow> sec_inv c e (uds_security_reset_lock ss) evs"
  by (auto simp: sec_inv_def uds_security_reset_lock_def seed_ok_def counter_ok_def)

lemma sec_inv_locked_send:
  "sec_inv c e ss evs \<Longrightarrow> security_status ss = UDS_SEC_LOCKED \<or> security_status ss = UDS_SEC_BRUTE_FORCE_LOCKOUT \<Longrightarrow>
     sec_inv c e ss (Isotp_send f # evs)"
  by (auto simp: sec_inv_def)

lemma length_uptime_seed [simp]: "length (uptime_seed n u) = n"
  by (simp add: uptime_seed_def)

lemma sec_inv_seed:
  assumes "sec_inv c e ss (trace i)" "kconfig_ok c" "length (uds_tx_buf i) = CONFIG_UDS_BUFF_SIZE c"
    "security_status ss \<noteq> UDS_SEC_BRUTE_FORCE_LOCKOUT"
  shows "sec_inv c e (fst (uds_security_request_seed c e 0x27 k len send nrc (ss, i)))
    (trace (snd (uds_security_request_seed c e 0x27 k len send nrc (ss, i))))"
proof -
  define n where "n = CONFIG_UDS_SEC_SEED_SIZE c"
  have n: "2 + n \<le> CONFIG_UDS_BUFF_SIZE c" "0 < n"
    using assms(2) by (simp_all add: kconfig_ok_def n_def)
  have len: "length (generated_seed ss) = n" using assms(1) by (simp add: sec_inv_def seed_ok_def n_def)
  have t: "take (Suc (Suc n)) (buf_put 2 sd (buf_put (Suc 0) [k] (buf_put 0 [103] (uds_tx_buf i)))) = 0x67 # k # sd"
    if "length sd = n" for sd
    using take_seed_frame [of sd "uds_tx_buf i" k "0x67"] n(1) assms(3) that by simp
  show ?thesis
    using assms(1,4) n(2) len
    by (simp add: uds_security_request_seed_def Let_def n_def [symmetric] t sec_inv_nrc,
        simp add: sec_inv_def seed_ok_def counter_ok_def n_def)
qed

lemma sec_inv_key:
  assumes "sec_inv c e ss (trace i)" "kconfig_ok c"
    "security_status ss \<noteq> UDS_SEC_BRUTE_FORCE_LOCKOUT" "uds_tx_buf i \<noteq> []"
    "length (uds_tx_buf i) = CONFIG_UDS_BUFF_SIZE c"
  shows "sec_inv c e (fst (uds_security_send_key c e req 0x27 k len send nrc (ss, i)))
    (trace (snd (uds_security_send_key c e req 0x27 k len send nrc (ss, i))))"
proof -
  have m: "CONFIG_UDS_SEC_MAX_FAILED_ATTEMPTS c \<le> 10" "0 < CONFIG_UDS_SEC_MAX_FAILED_ATTEMPTS c"
    "64 \<le> CONFIG_UDS_BUFF_SIZE c"
    using assms(2) by (simp_all add: kconfig_ok_def)
  then have "unat (failed_attempts_counter ss) < 255"
    using assms(1,3) by (auto simp: sec_inv_def counter_ok_def)
  then show ?thesis
    using assms(1,3,4,5) m
    by (simp add: uds_security_send_key_def Let_def sec_inv_nrc,
        simp add: sec_inv_def seed_ok_def counter_ok_def unat_counter_Suc nrc_trace_def min_def hd_conv_nth)
qed

lemma sec_inv_handle:
  assumes "sec_inv c e ss (trace i)" "kconfig_ok c" "req ! 0 = 0x27"
    "length (uds_tx_buf i) = CONFIG_UDS_BUFF_SIZE c"
  shows "sec_inv c e (fst (uds_security_handle_request c e send nrc req len (ss, i)))
    (trace (snd (uds_security_handle_request c e send nrc req len (ss, i))))"
proof -
  have "uds_tx_buf i \<noteq> []" using assms(2,4) kconfig_buff [of c] by auto
  then show ?thesis
    using assms sec_inv_seed [OF assms(1,2,4)] sec_inv_key [OF assms(1,2) _ _ assms(4)]
    by (simp add: uds_security_handle_request_def Let_def sec_inv_nrc)
qed

lemma sec_inv_ignores:
  assumes "sec_inv c e ss evs"
    "failures e evs' = failures e evs" "authenticated e evs' = authenticated e evs"
    "last_seed evs' = last_seed evs" "seeds_match evs' = seeds_match evs"
  shows "sec_inv c e ss evs'"
  using assms by (simp add: sec_inv_def)

lemma session_case_security:
  "security_st (uds_session_case c req len s) =
     (if 2 \<le> len \<and> (req ! 1 = 1 \<or> req ! 1 = 2 \<or> req ! 1 = 3)
      then uds_security_reset_lock (security_st s) else security_st s)"
  by (auto simp: uds_session_case_def Let_def)

lemma sec_inv_dispatch:
  assumes "sec_inv c e (security_st s) (tr s)" "kconfig_ok c"
    "length (uds_tx_buf (io_st s)) = CONFIG_UDS_BUFF_SIZE c"
  shows "sec_inv c e (security_st (uds_dispatch c e req len a (accepted c a s)))
    (tr (uds_dispatch c e req len a (accepted c a s)))"
proof -
  define t where "t = uds_dispatch c e req len a (accepted c a s)"
  have s: "sec_inv c e (security_st (accepted c a s)) (trace (io_st (accepted c a s)))"
    using assms(1) by (simp add: sec_inv_s3_event)
  have buf: "uds_tx_buf (io_st (accepted c a s)) \<noteq> []"
    using assms(2,3) kconfig_buff [of c] by auto
  consider (sec) "req ! 0 = 0x27" | (ses) "req ! 0 = 0x10" | (other) "req ! 0 \<noteq> 0x27" "req ! 0 \<noteq> 0x10"
    by blast
  then have "sec_inv c e (security_st t) (tr t)"
  proof cases
    case sec
    show ?thesis
      using sec_inv_handle [OF s assms(2) sec] assms(3) s
      by (cases a) (simp_all add: t_def dispatch_0x27 [OF sec] sec_inv_nrc sec_inv_s3_event)
  next
    case ses
    have "sec_inv c e (uds_security_reset_lock (security_st s)) (Isotp_send f # s3_event c ses' # s3_event c ses'' # tr s)"
      for f ses' ses''
      using sec_inv_reset_lock [OF assms(1)]
      by (intro sec_inv_locked_send) (simp_all add: sec_inv_s3_event, simp add: uds_security_reset_lock_def)
    then show ?thesis
      using s assms(1)
      by (auto simp: t_def dispatch_0x10 [OF ses] session_case_trace sec_inv_nrc sec_inv_s3_event
          session_case_security)
  next
    case other
    have "security_st t = security_st s"
      using other by (simp add: t_def dispatch_security valid_session_request_def)
    moreover have "sec_inv c e (security_st (accepted c a s)) (tr t)"
      unfolding t_def using other buf
      by (intro sec_inv_ignores [OF s]) (simp_all add: ignores_dispatch)
    ultimately show ?thesis by simp
  qed
  then show ?thesis by (simp add: t_def)
qed

lemma init_event_scan:
  "\<forall>ev \<in> set evs. init_event c ev \<Longrightarrow>
     failures e evs = 0 \<and> \<not> authenticated e evs \<and> last_seed evs = None \<and> seeds_match evs"
proof (induction evs)
  case (Cons ev evs) then show ?case by (cases ev) auto
qed simp

lemma reachable_sec_inv:
  assumes "reachable c e s" "kconfig_ok c" "counter_ok c (security_st (booted c e))"
  shows "sec_inv c e (security_st s) (tr s)"
  using assms(1)
proof (induction rule: reachable_invariant)
  case boot
  then show ?case
    using init_event_scan [OF boot_trace [OF boot], of e] assms(3)
      security_init_timer [of "security_state_0 c" c e "io_boot c"]
    by (auto simp: sec_inv_def booted_sel security_state_0_def seed_ok_def)
next
  case (request s a buf len)
  then show ?case using reachable_tx_buf [OF request(1) assms(2)] assms(2) by (intro sec_inv_dispatch)
next
  case (periodic s)
  have "periodic_inv (periodic_st s)" by (rule reachable_tx_buf [OF periodic(1) assms(2)])
  with sec_inv_ignores [OF periodic(2)] show ?case
    by (simp add: ignores_round)
next
  case (s3 s)
  then have "current_session (session_st s) \<noteq> UDS_SESSION_DEFAULT"
    using reachable_s3 [OF s3(1) assms(2)] by (auto simp: s3_ok_def timer_running_def)
  then show ?case
    using s3.IH by (auto simp: sec_inv_def uds_security_reset_lock_def seed_ok_def counter_ok_def)
next
  case (lockout s)
  then show ?case
    using assms(2) by (auto simp: sec_inv_def seed_ok_def counter_ok_def kconfig_ok_def)
next
  case (poll s l buf)
  then show ?case by (simp add: sec_inv_def)
qed (auto simp: sec_inv_def nrc_trace_def split: option.splits)

text \<open>Rejected keys stay within the maximum, and at the maximum the module is locked out.\<close>

lemma attempts_bounded:
  assumes "reachable c e s" "kconfig_ok c" "counter_ok c (security_st (booted c e))"
  shows "failures e (tr s) \<le> CONFIG_UDS_SEC_MAX_FAILED_ATTEMPTS c \<and>
    (failures e (tr s) = CONFIG_UDS_SEC_MAX_FAILED_ATTEMPTS c \<longrightarrow>
       security_status (security_st s) = UDS_SEC_BRUTE_FORCE_LOCKOUT)"
  using reachable_sec_inv [OF assms] by (auto simp: sec_inv_def counter_ok_def split: if_splits)

section \<open>Protected hooks\<close>

text \<open>An erase request the application accepted.\<close>

fun erase_accepted :: "env \<Rightarrow> trace \<Rightarrow> bool" where
  "erase_accepted e [] \<longleftrightarrow> False"
| "erase_accepted e (App_flash_erase_target a n # evs) \<longleftrightarrow>
     uds_app_flash_erase_target (app e) evs a n = 0 \<or> erase_accepted e evs"
| "erase_accepted e (_ # evs) \<longleftrightarrow> erase_accepted e evs"

text \<open>
  Each call that writes an identifier, drives an output or erases flash stands at a place where the trace before it
  has the property \<open>K\<close>, and each flash write behind an accepted erase.
\<close>

fun guarded_by :: "(trace \<Rightarrow> bool) \<Rightarrow> env \<Rightarrow> trace \<Rightarrow> bool" where
  "guarded_by K e [] \<longleftrightarrow> True"
| "guarded_by K e (App_write_did d bs # evs) \<longleftrightarrow> K evs \<and> guarded_by K e evs"
| "guarded_by K e (App_io_control d k bs # evs) \<longleftrightarrow> K evs \<and> guarded_by K e evs"
| "guarded_by K e (App_flash_erase_target a n # evs) \<longleftrightarrow> K evs \<and> guarded_by K e evs"
| "guarded_by K e (App_flash_write_block a bs # evs) \<longleftrightarrow> erase_accepted e evs \<and> guarded_by K e evs"
| "guarded_by K e (_ # evs) \<longleftrightarrow> guarded_by K e evs"

text \<open>Where the tester is authenticated.\<close>

abbreviation guarded :: "env \<Rightarrow> trace \<Rightarrow> bool" where
  "guarded e \<equiv> guarded_by (authenticated e) e"

definition guard_inv :: "(trace \<Rightarrow> bool) \<Rightarrow> env \<Rightarrow> flash_state \<Rightarrow> trace \<Rightarrow> bool" where
  "guard_inv K e fl evs \<longleftrightarrow> guarded_by K e evs \<and> (streaming fl \<longrightarrow> erase_accepted e evs)"

lemma ignores_guarded [simp]:
  "ignores (guarded_by K e) periodic_event"
  "sid \<noteq> 0x2E \<Longrightarrow> sid \<noteq> 0x2F \<Longrightarrow> sid \<noteq> 0x34 \<Longrightarrow> sid \<noteq> 0x36 \<Longrightarrow> ignores (guarded_by K e) (service_event sid)"
proof -
  have "periodic_event ev \<Longrightarrow> guarded_by K e (ev # evs) = guarded_by K e evs" for ev evs
    by (cases ev) simp_all
  then show "ignores (guarded_by K e) periodic_event" by (simp add: ignores_def)
next
  assume "sid \<noteq> 0x2E" "sid \<noteq> 0x2F" "sid \<noteq> 0x34" "sid \<noteq> 0x36"
  then have "service_event sid ev \<Longrightarrow> guarded_by K e (ev # evs) = guarded_by K e evs" for ev evs
    by (cases ev) (simp_all add: service_event_def)
  then show "ignores (guarded_by K e) (service_event sid)" by (simp add: ignores_def)
qed

lemma ignores_erase [simp]:
  "ignores (erase_accepted e) periodic_event"
  "sid \<noteq> 0x34 \<Longrightarrow> ignores (erase_accepted e) (service_event sid)"
proof -
  have "periodic_event ev \<Longrightarrow> erase_accepted e (ev # evs) = erase_accepted e evs" for ev evs
    by (cases ev) simp_all
  then show "ignores (erase_accepted e) periodic_event" by (simp add: ignores_def)
next
  assume "sid \<noteq> 0x34"
  then have "service_event sid ev \<Longrightarrow> erase_accepted e (ev # evs) = erase_accepted e evs" for ev evs
    by (cases ev) (simp_all add: service_event_def)
  then show "ignores (erase_accepted e) (service_event sid)" by (simp add: ignores_def)
qed

lemma guarded_s3_event [simp]:
  "guarded_by K e (s3_event c ses # evs) = guarded_by K e evs"
  "erase_accepted e (s3_event c ses # evs) = erase_accepted e evs"
  "authenticated e (s3_event c ses # evs) = authenticated e evs"
  by (simp_all add: s3_event_def)

lemma guarded_nrc [simp]:
  "guarded_by K e (nrc_trace sid nrc a @ evs) = guarded_by K e evs"
  "erase_accepted e (nrc_trace sid nrc a @ evs) = erase_accepted e evs"
  by (simp_all add: nrc_trace_def)

lemma guarded_write_did:
  assumes "guarded_by K e (trace i)" "security_status ss = UDS_SEC_UNLOCKED \<longrightarrow> K (trace i)"
  shows "guarded_by K e (trace (uds_write_did_handle e ses ss send nrc req len i))"
    "guarded_by K e (trace (uds_handle_io_control e ses ss send nrc req len i))"
  using assms by (simp_all add: uds_write_did_handle_def uds_handle_io_control_def Let_def case_prod_beta)

lemma guarded_download:
  assumes "guard_inv K e fl (trace i)" "security_status ss = UDS_SEC_UNLOCKED \<longrightarrow> K (trace i)"
  shows "guard_inv K e (fst (uds_handle_request_download c e ses ss send nrc req len (fl, i)))
    (trace (snd (uds_handle_request_download c e ses ss send nrc req len (fl, i))))"
  using assms
  by (simp add: uds_handle_request_download_def Let_def case_prod_beta guard_inv_def streaming_def)

lemma guarded_transfer:
  assumes "guard_inv K e fl (trace i)"
  shows "guard_inv K e (fst (uds_handle_transfer_data e send nrc req len (fl, i)))
    (trace (snd (uds_handle_transfer_data e send nrc req len (fl, i))))"
    "guard_inv K e (fst (uds_handle_request_transfer_exit send nrc req len (fl, i)))
    (trace (snd (uds_handle_request_transfer_exit send nrc req len (fl, i))))"
  using assms
  by (auto simp: uds_handle_transfer_data_def uds_handle_request_transfer_exit_def Let_def
      guard_inv_def streaming_def)

lemma guard_inv_dispatch:
  assumes "guard_inv (authenticated e) e (flash_st s) (tr s)"
    "security_status (security_st s) = UDS_SEC_UNLOCKED \<longrightarrow> authenticated e (tr s)"
    "uds_tx_buf (io_st s) \<noteq> []"
  shows "guard_inv (authenticated e) e (flash_st (uds_dispatch c e req len a (accepted c a s)))
    (tr (uds_dispatch c e req len a (accepted c a s)))"
proof (cases "req ! 0 \<in> {0x2E, 0x2F, 0x34, 0x36, 0x37}")
  case True
  have s: "guard_inv (authenticated e) e (flash_st s) (trace (io_st (accepted c a s)))"
    "guarded e (trace (io_st (accepted c a s)))"
    "security_status (security_st s) = UDS_SEC_UNLOCKED \<longrightarrow> authenticated e (trace (io_st (accepted c a s)))"
    using assms(1,2) by (simp_all add: guard_inv_def)
  show ?thesis
    using True s assms(1) guarded_write_did [OF s(2,3)] guarded_download [OF s(1,3)] guarded_transfer [OF s(1)]
      ignores_dispatch [of "erase_accepted e" req "accepted c a s" c e len a] assms(3)
    by (cases a) (auto simp: uds_dispatch_def Let_def guard_inv_def)
next
  case False
  have "flash_st (uds_dispatch c e req len a (accepted c a s)) = flash_st s"
    using False by (simp add: dispatch_flash)
  with False assms show ?thesis
    by (simp add: guard_inv_def ignores_dispatch [where F = "guarded e"]
        ignores_dispatch [where F = "erase_accepted e"])
qed

lemma init_event_guarded: "\<forall>ev \<in> set evs. init_event c ev \<Longrightarrow> guarded_by K e evs"
proof (induction evs)
  case (Cons ev evs) then show ?case by (cases ev) auto
qed simp

lemma reachable_guarded:
  assumes "reachable c e s" "kconfig_ok c" "counter_ok c (security_st (booted c e))"
  shows "guard_inv (authenticated e) e (flash_st s) (tr s)"
  using assms(1)
proof (induction rule: reachable_invariant)
  case boot
  then show ?case
    using init_event_guarded [OF boot_trace [OF boot], of "authenticated e" e]
    by (simp add: guard_inv_def booted_sel flash_state_0_def streaming_def)
next
  case (request s a buf len)
  then show ?case
    using reachable_tx_buf [OF request(1) assms(2)] reachable_sec_inv [OF request(1) assms(2,3)]
    by (intro guard_inv_dispatch) (simp_all add: sec_inv_def)
next
  case (periodic s)
  have "periodic_inv (periodic_st s)" by (rule reachable_tx_buf [OF periodic(1) assms(2)])
  with periodic(2) show ?case
    by (simp add: guard_inv_def ignores_round [where F = "guarded e"]
        ignores_round [where F = "erase_accepted e"])
qed (auto simp: guard_inv_def nrc_trace_def split: option.splits)

section \<open>Attempts and lockout survive a restart\<close>

text \<open>
  The store holds what the component knows: the lockout flag is 1 exactly during a lockout, and the
  stored counter is the current one.
\<close>

definition store_ok :: "security_state \<Rightarrow> trace \<Rightarrow> bool" where
  "store_ok ss evs \<longleftrightarrow>
     (security_status ss = UDS_SEC_BRUTE_FORCE_LOCKOUT \<longrightarrow>
        nvs_last Security_fs NVS_LOCKOUT_STATE_ID evs = Some [1]) \<and>
     (security_status ss \<noteq> UDS_SEC_BRUTE_FORCE_LOCKOUT \<longrightarrow>
        nvs_last Security_fs NVS_LOCKOUT_STATE_ID evs = None \<or>
        nvs_last Security_fs NVS_LOCKOUT_STATE_ID evs = Some [0]) \<and>
     (nvs_last Security_fs NVS_DTC_COUNTER_ID evs = Some [failed_attempts_counter ss] \<or>
      nvs_last Security_fs NVS_DTC_COUNTER_ID evs = None \<and> failed_attempts_counter ss = 0)"

lemma ignores_nvs [simp]:
  "ignores (\<lambda>evs. nvs_last Security_fs k (evs @ old)) periodic_event"
  "sid \<noteq> 0x27 \<Longrightarrow> ignores (\<lambda>evs. nvs_last Security_fs k (evs @ old)) (service_event sid)"
proof -
  have "periodic_event ev \<Longrightarrow> nvs_last Security_fs k (ev # evs) = nvs_last Security_fs k evs" for ev evs
    by (cases ev) simp_all
  then show "ignores (\<lambda>evs. nvs_last Security_fs k (evs @ old)) periodic_event" by (simp add: ignores_def)
next
  assume "sid \<noteq> 0x27"
  then have "service_event sid ev \<Longrightarrow> nvs_last Security_fs k (ev # evs) = nvs_last Security_fs k evs" for ev evs
    by (cases ev) (simp_all add: service_event_def)
  then show "ignores (\<lambda>evs. nvs_last Security_fs k (evs @ old)) (service_event sid)"
    by (simp add: ignores_def)
qed

lemma nvs_last_other [simp]:
  "nvs_last fs k (s3_event c ses # evs) = nvs_last fs k evs"
  "nvs_last fs k (nrc_trace sid nrc a @ evs) = nvs_last fs k evs"
  by (simp_all add: s3_event_def nrc_trace_def)

lemma store_ok_handle:
  assumes "store_ok ss (trace i @ old)"
  shows "store_ok (fst (uds_security_handle_request c e send nrc req len (ss, i)))
    (trace (snd (uds_security_handle_request c e send nrc req len (ss, i))) @ old)"
  using assms
  by (cases "security_status ss")
    (simp_all add: uds_security_handle_request_def uds_security_request_seed_def
      uds_security_send_key_def Let_def store_ok_def)

lemma store_ok_reset_lock: "store_ok ss evs \<Longrightarrow> store_ok (uds_security_reset_lock ss) evs"
  by (auto simp: store_ok_def uds_security_reset_lock_def)

lemma store_ok_dispatch:
  assumes "store_ok (security_st s) (tr s @ old)" "uds_tx_buf (io_st s) \<noteq> []"
  shows "store_ok (security_st (uds_dispatch c e req len a (accepted c a s)))
    (tr (uds_dispatch c e req len a (accepted c a s)) @ old)"
proof (cases "req ! 0 = 0x27")
  case True
  have "store_ok (security_st (accepted c a s)) (trace (io_st (accepted c a s)) @ old)"
    using assms(1) by (simp add: store_ok_def)
  from store_ok_handle [OF this] assms(1) True show ?thesis
    by (cases a) (simp_all add: dispatch_0x27, simp add: store_ok_def)
next
  case False
  have "store_ok (security_st (uds_dispatch c e req len a (accepted c a s))) (tr s @ old)"
    using assms(1) False by (simp add: dispatch_security store_ok_reset_lock)
  with False assms(2) show ?thesis
    using ignores_dispatch [where F = "\<lambda>evs. nvs_last Security_fs 1 (evs @ old)" and s = "accepted c a s"]
      ignores_dispatch [where F = "\<lambda>evs. nvs_last Security_fs 2 (evs @ old)" and s = "accepted c a s"]
    by (simp add: store_ok_def)
qed

text \<open>
  A module that starts on a store filled by former lives, \<open>old\<close>: every read yields what was last
  written, in a former life or in this one.
\<close>

definition backed :: "env \<Rightarrow> trace \<Rightarrow> bool" where
  "backed e old \<longleftrightarrow> (\<forall>evs k n. nvs_read e evs Security_fs k n = nvs_after (evs @ old) Security_fs k n)"

definition stored_ok :: "kconfig \<Rightarrow> trace \<Rightarrow> bool" where
  "stored_ok c old \<longleftrightarrow> (\<exists>ss. store_ok ss old \<and> counter_ok c ss)"

lemma init_event_nvs: "\<forall>ev \<in> set evs. init_event c ev \<Longrightarrow> nvs_last fs k (evs @ old) = nvs_last fs k old"
proof (induction evs)
  case (Cons ev evs) then show ?case by (cases ev) auto
qed simp

lemma security_init_restores:
  assumes "storage_usable e" "backed e old" "store_ok ss0 old" "counter_ok c ss0" "kconfig_ok c"
    "\<forall>ev \<in> set (trace i). init_event c ev"
  shows "sec_view (fst (uds_security_init c e (security_state_0 c, i))) =
    (if security_status ss0 = UDS_SEC_BRUTE_FORCE_LOCKOUT then UDS_SEC_BRUTE_FORCE_LOCKOUT else UDS_SEC_LOCKED,
     unat (failed_attempts_counter ss0))"
proof -
  have m: "unat (word_of_nat (CONFIG_UDS_SEC_MAX_FAILED_ATTEMPTS c) :: u8)
      = CONFIG_UDS_SEC_MAX_FAILED_ATTEMPTS c"
    using assms(5) by (simp add: kconfig_ok_def unsigned_of_nat take_bit_nat_eq_self)
  have rd: "nvs_read e evs Security_fs k n = nvs_after old Security_fs k n"
    if "\<forall>ev \<in> set evs. init_event c ev" for evs k n
    using assms(2) init_event_nvs [OF that] by (simp add: backed_def nvs_after_def)
  have u: "device_is_ready e evs Storage_partition_device" "nvs_mount e evs = 0"
    "fst (flash_get_page_info_by_offs e evs) = 0"
    "(STORAGE_PARTITION_SIZE e div snd (flash_get_page_info_by_offs e evs) = 0) = False" for evs
    using assms(1) storage_usable_count [OF assms(1), of evs] by (simp_all add: storage_usable_def)
  show ?thesis
    using assms(3,4,6)
    by (auto simp: uds_security_init_def Let_def case_prod_beta rd u nvs_read_into_def nvs_after_def
        store_ok_def counter_ok_def sec_view_def security_state_0_def m buf_put_def)
qed

lemma store_ok_view:
  "store_ok ss evs = store_ok ss' evs" if "security_status ss = UDS_SEC_BRUTE_FORCE_LOCKOUT \<longleftrightarrow>
     security_status ss' = UDS_SEC_BRUTE_FORCE_LOCKOUT"
    "failed_attempts_counter ss = failed_attempts_counter ss'"
  using that by (simp add: store_ok_def)

lemma booted_restores:
  assumes "fst (uds_init c e (system_0 c)) = 0" "storage_usable e" "backed e old" "store_ok ss0 old"
    "counter_ok c ss0" "kconfig_ok c"
  shows "sec_view (security_st (booted c e)) =
    (if security_status ss0 = UDS_SEC_BRUTE_FORCE_LOCKOUT then UDS_SEC_BRUTE_FORCE_LOCKOUT else UDS_SEC_LOCKED,
     unat (failed_attempts_counter ss0))"
  using security_init_restores [OF assms(2-6), of "io_boot c"] by (simp add: booted_sel(2) [OF assms(1)])

lemma booted_store:
  assumes "fst (uds_init c e (system_0 c)) = 0" "storage_usable e" "backed e old" "stored_ok c old"
    "kconfig_ok c"
  shows "store_ok (security_st (booted c e)) (tr (booted c e) @ old) \<and>
    counter_ok c (security_st (booted c e))"
proof -
  obtain ss0 where ss0: "store_ok ss0 old" "counter_ok c ss0" using assms(4) by (auto simp: stored_ok_def)
  have v: "security_status (security_st (booted c e)) = UDS_SEC_BRUTE_FORCE_LOCKOUT \<longleftrightarrow>
      security_status ss0 = UDS_SEC_BRUTE_FORCE_LOCKOUT"
    "failed_attempts_counter (security_st (booted c e)) = failed_attempts_counter ss0"
    using booted_restores [OF assms(1-3) ss0 assms(5)] by (auto simp: sec_view_def intro: word_unat_eq_iff [THEN iffD2] split: if_splits)
  have "store_ok ss0 (tr (booted c e) @ old)"
    using ss0(1) init_event_nvs [OF boot_trace [OF assms(1)], of Security_fs _ old] by (simp add: store_ok_def)
  then show ?thesis
    using store_ok_view [OF v] v ss0(2) by (simp add: counter_ok_def)
qed

lemma reachable_store:
  assumes "reachable c e s" "kconfig_ok c" "storage_usable e" "backed e old" "stored_ok c old"
  shows "store_ok (security_st s) (tr s @ old)"
  using assms(1)
proof (induction rule: reachable_invariant)
  case boot
  then show ?case using booted_store [OF _ assms(3,4,5,2)] by simp
next
  case (request s a buf len)
  then show ?case using reachable_tx_buf [OF request(1) assms(2)] by (intro store_ok_dispatch)
next
  case (periodic s)
  have "periodic_inv (periodic_st s)" by (rule reachable_tx_buf [OF periodic(1) assms(2)])
  with periodic(2) show ?case
    using ignores_round [where F = "\<lambda>evs. nvs_last Security_fs 1 (evs @ old)" and s = s and e = e]
      ignores_round [where F = "\<lambda>evs. nvs_last Security_fs 2 (evs @ old)" and s = s and e = e]
    by (simp add: store_ok_def)
next
  case (s3 s)
  then show ?case using store_ok_reset_lock [OF s3.IH] by (auto simp: store_ok_def)
qed (auto simp: store_ok_def nrc_trace_def split: option.splits)

lemma reachable_counter:
  assumes "reachable c e s" "kconfig_ok c" "storage_usable e" "backed e old" "stored_ok c old"
  shows "counter_ok c (security_st s)"
proof -
  have "fst (uds_init c e (system_0 c)) = 0" using assms(1) by (induction rule: reachable.induct) auto
  then show ?thesis
    using reachable_sec_inv [OF assms(1,2)] booted_store [OF _ assms(3,4,5,2)] by (simp add: sec_inv_def)
qed

text \<open>An environment on the store of former lives, for concrete runs.\<close>

definition backed_env :: "app_hooks \<Rightarrow> trace \<Rightarrow> env" where
  "backed_env h old = (quiet_env h)\<lparr>nvs_read := \<lambda>evs. nvs_after (evs @ old)\<rparr>"

lemma backed_env_sel [simp]: "backed (backed_env h old) old" "storage_usable (backed_env h old)"
  by (simp_all add: backed_def backed_env_def storage_usable_def quiet_env_def)

lemma stored_ok_empty: "kconfig_ok c \<Longrightarrow> stored_ok c []"
  by (auto simp: stored_ok_def store_ok_def kconfig_ok_def counter_ok_def security_state_0_def
      intro!: exI [of _ "security_state_0 c"])

text \<open>What \<open>authenticated\<close> and \<open>seeds_match\<close> say, written out.\<close>

lemma authenticated_Cons:
  assumes "authenticated e (ev # evs)" "\<And>l sd k. ev \<noteq> App_verify_key_krypto l sd k"
  shows "authenticated e evs \<and> ev \<noteq> K_timer_expired S3_timer \<and> (\<forall>f. ev = Isotp_send f \<longrightarrow> f = [] \<or> hd f \<noteq> 0x50)"
  using assms by (cases ev) auto

lemma authenticated_evidence:
  "authenticated e evs \<Longrightarrow>
     \<exists>post l sd k pre. evs = post @ App_verify_key_krypto l sd k # pre \<and>
       uds_app_verify_key_krypto (app e) pre l sd k = 0 \<and>
       K_timer_expired S3_timer \<notin> set post \<and> (\<forall>f. Isotp_send f \<in> set post \<longrightarrow> f = [] \<or> hd f \<noteq> 0x50)"
proof (induction evs)
  case (Cons ev evs)
  show ?case
  proof (cases "\<exists>l sd k. ev = App_verify_key_krypto l sd k")
    case True
    with Cons.prems show ?thesis by (intro exI [of _ "[]"]) auto
  next
    case False
    note ev = authenticated_Cons [OF Cons.prems] False
    then obtain post l sd k pre where "evs = post @ App_verify_key_krypto l sd k # pre"
      "uds_app_verify_key_krypto (app e) pre l sd k = 0" "K_timer_expired S3_timer \<notin> set post"
      "\<forall>f. Isotp_send f \<in> set post \<longrightarrow> f = [] \<or> hd f \<noteq> 0x50" using Cons.IH by auto
    with ev show ?thesis by (intro exI [of _ "ev # post"]) auto
  qed
qed simp

lemma seeds_match_append: "seeds_match (post @ App_verify_key_krypto l sd k # pre) \<Longrightarrow> last_seed pre = Some sd"
proof (induction post)
  case (Cons ev post) then show ?case by (cases ev) auto
qed simp

end
