(* ===== verification/Uds_Memory.thy ===== *)
theory Uds_Memory
  imports Uds_Invariants
begin

text \<open>
  Array accesses. The conditions under which no request, no thread round and no callback reaches outside an array:
  what the application promises, what the configuration must leave room for, and what the entries of
  the dynamic identifier must satisfy, since the code does not check them.
\<close>

section \<open>What the code relies on for its array accesses\<close>

text \<open>
  The documented duties of the application: no hook stores more bytes than it is told there is room
  for, or reports more than it stored, and the periodic hook keeps to the 14 bytes behind the
  header of its buffer.
\<close>

definition hooks_bounded :: "app_hooks \<Rightarrow> bool" where
  "hooks_bounded h \<longleftrightarrow>
     (\<forall>evs did n m. length (fst (snd (uds_app_read_did h evs did n m))) \<le> m \<and>
        (fst (uds_app_read_did h evs did n m) = 0 \<longrightarrow> snd (snd (uds_app_read_did h evs did n m)) \<le> m)) \<and>
     (\<forall>evs d r n m. length (fst (snd (uds_app_get_freeze_frame h evs d r n m))) \<le> m \<and>
        (fst (uds_app_get_freeze_frame h evs d r n m) = 0 \<longrightarrow>
           snd (snd (uds_app_get_freeze_frame h evs d r n m)) \<le> m)) \<and>
     (\<forall>evs d n. length (fst (snd (uds_app_get_periodic_did h evs d n))) \<le> 14 \<and>
        (fst (uds_app_get_periodic_did h evs d n) = 0 \<longrightarrow>
           snd (snd (uds_app_get_periodic_did h evs d n)) \<le> 14))"

lemma hooks_boundedD:
  assumes "hooks_bounded h"
  shows "length (fst (snd (uds_app_read_did h evs did n m))) \<le> m"
    "fst (uds_app_read_did h evs did n m) = 0 \<Longrightarrow> snd (snd (uds_app_read_did h evs did n m)) \<le> m"
    "length (fst (snd (uds_app_get_freeze_frame h evs d r n m))) \<le> m"
    "fst (uds_app_get_freeze_frame h evs d r n m) = 0 \<Longrightarrow>
       snd (snd (uds_app_get_freeze_frame h evs d r n m)) \<le> m"
    "length (fst (snd (uds_app_get_periodic_did h evs p n))) \<le> 14"
    "fst (uds_app_get_periodic_did h evs p n) = 0 \<Longrightarrow>
       snd (snd (uds_app_get_periodic_did h evs p n)) \<le> 14"
  using assms by (simp_all add: hooks_bounded_def)

text \<open>
  The configuration leaves room for sixteen trouble codes, the seed fits in the uptime counter the
  fallback takes it from, and in the 16 bytes of the local key buffer.
\<close>

definition roomy :: "kconfig \<Rightarrow> bool" where
  "roomy c \<longleftrightarrow> 67 \<le> CONFIG_UDS_BUFF_SIZE c \<and> CONFIG_UDS_SEC_SEED_SIZE c \<le> 4"

definition slices_ok :: "dynamic_did_map \<Rightarrow> bool" where
  "slices_ok dm \<longleftrightarrow> unat (entry_count dm) \<le> 1 \<and> (\<forall>d \<in> set (take (unat (entry_count dm)) (entries dm)). slice_in_buf d)"

lemma report_dtcs_index_le: "fst (report_dtcs e fs m ks temp k i) \<le> k + 4 * length ks"
proof (induction ks arbitrary: temp k i)
  case (Cons x ks)
  show ?case
    using Cons.IH [of _ "k + 4"] Cons.IH [of _ k]
    by (simp add: Let_def case_prod_beta, intro conjI impI; (rule order.trans, assumption, simp | force intro: order.trans))
qed simp


lemma report_dtcs_safe:
  "k + 4 * length ks \<le> length (uds_tx_buf i) \<Longrightarrow>
     mem_fault (snd (report_dtcs e fs m ks temp k i)) = mem_fault i"
  by (induction ks arbitrary: temp k i) (simp_all add: Let_def case_prod_beta)

lemma assemble_safe:
  assumes "hooks_bounded (app e)"
  shows "\<forall>d \<in> set ds. slice_in_buf d \<Longrightarrow> off + t + 64 * length ds \<le> length (uds_tx_buf i) \<Longrightarrow>
     length buf = 64 \<Longrightarrow>
     (mem_fault (snd (assemble_entries e off ds buf n t i)) = mem_fault i \<and>
     fst (assemble_entries e off ds buf n t i) \<le> t + 64 * length ds)"
proof (induction ds arbitrary: buf n t i)
  case (Cons d ds)
  define p where "p = uds_app_read_did (app e) (trace i) (source_did d) n 64"
  have d: "unat (slice_length d) \<le> 64" "slice_in_buf d" "length (fst (snd p)) \<le> 64"
    using Cons.prems(1) hooks_boundedD(1) [OF assms] by (auto simp: slice_in_buf_def p_def)
  have ds: "\<forall>d \<in> set ds. slice_in_buf d" using Cons.prems(1) by simp
  show ?case
  proof (cases "fst p = 0")
    case True
    define j where "j = tx_put (off + t)
      (take (unat (slice_length d)) (drop (unat (position d) - 1) (buf_put 0 (fst (snd p)) buf)))
      (fault_if (\<not> slice_in_buf d) (fault_if (64 < length (fst (snd p))) (emit (App_read_did (source_did d) 64) i)))"
    have e: "assemble_entries e off (d # ds) buf n t i
        = assemble_entries e off ds (buf_put 0 (fst (snd p)) buf) (snd (snd p)) (t + unat (slice_length d)) j"
      using True by (simp add: Let_def case_prod_beta p_def j_def)
    have m: "\<not> length (uds_tx_buf i) < off + t + min (64 - (unat (position d) - Suc 0)) (unat (slice_length d))"
      using d(1) Cons.prems(2) by (simp add: not_less)
    have "mem_fault j = mem_fault i" "length (uds_tx_buf j) = length (uds_tx_buf i)"
      using d(2,3) m Cons.prems(2,3) by (simp_all add: j_def)
    then show ?thesis
      unfolding e using Cons.IH [OF ds, of "t + unat (slice_length d)" j "buf_put 0 (fst (snd p)) buf" "snd (snd p)"]
        Cons.prems(2,3) d(1) by simp
  next
    case False
    define j where "j = fault_if (64 < length (fst (snd p))) (emit (App_read_did (source_did d) 64) i)"
    have e: "assemble_entries e off (d # ds) buf n t i
        = assemble_entries e off ds (buf_put 0 (fst (snd p)) buf) (snd (snd p)) t j"
      using False by (simp add: Let_def case_prod_beta p_def j_def)
    have "mem_fault j = mem_fault i" "uds_tx_buf j = uds_tx_buf i"
      using d(3) by (simp_all add: j_def)
    then show ?thesis
      unfolding e using Cons.IH [OF ds, of t j "buf_put 0 (fst (snd p)) buf" "snd (snd p)"] Cons.prems(2,3)
      by simp
  qed
qed simp

lemma read_did_safe:
  assumes "hooks_bounded (app e)" "roomy c" "length (uds_tx_buf i) = CONFIG_UDS_BUFF_SIZE c" "slices_ok dm"
  shows "mem_fault (uds_read_did_case c e dm req len i) = mem_fault i"
proof -
  have b: "67 \<le> CONFIG_UDS_BUFF_SIZE c" using assms(2) by (simp add: roomy_def)
  define ds where "ds = take (unat (entry_count dm)) (entries dm)"
  have ds: "\<forall>d \<in> set ds. slice_in_buf d" "64 * length ds \<le> 64"
    using assms(4) by (auto simp: ds_def slices_ok_def min_def)
  have a: "mem_fault (snd (assemble_entries e 3 ds (uninit_buf e (trace i) 64) 0 0 i)) = mem_fault i"
    "fst (assemble_entries e 3 ds (uninit_buf e (trace i) 64) 0 0 i) \<le> 64"
    using assemble_safe [OF assms(1) ds(1), of 3 0 i "uninit_buf e (trace i) 64" 0] ds(2) b assms(3) by simp_all
  have ne: "uds_tx_buf (snd (assemble_entries e 3 ds (uninit_buf e (trace i) 64) 0 0 i)) \<noteq> []"
    using b assms(3) assemble_length [of e 3 ds "uninit_buf e (trace i) 64" 0 0 i] by (metis length_0_conv not_numeral_le_zero)
  have r: "\<not> CONFIG_UDS_BUFF_SIZE c < 3 + length (fst (snd (uds_app_read_did (app e) evs did n (CONFIG_UDS_BUFF_SIZE c - 3))))"
    "fst (uds_app_read_did (app e) evs did n (CONFIG_UDS_BUFF_SIZE c - 3)) = 0 \<Longrightarrow>
      \<not> CONFIG_UDS_BUFF_SIZE c < 3 + snd (snd (uds_app_read_did (app e) evs did n (CONFIG_UDS_BUFF_SIZE c - 3)))"
    for evs did n
    using b hooks_boundedD(1,2) [OF assms(1), of evs did n "CONFIG_UDS_BUFF_SIZE c - 3"] by simp_all
  have f: "\<not> CONFIG_UDS_BUFF_SIZE c < 3 + fst (assemble_entries e 3 ds (uninit_buf e (trace i) 64) 0 0 i)"
    using a(2) b by simp
  show ?thesis
    using a b assms(3) ne r f
    by (simp add: uds_read_did_case_def Let_def case_prod_beta uds_read_dynamic_did_payload_def ds_def [symmetric])
qed


lemma read_dtc_safe:
  assumes "hooks_bounded (app e)" "roomy c" "length (uds_tx_buf i) = CONFIG_UDS_BUFF_SIZE c"
  shows "mem_fault (uds_read_dtc_handle c e send nrc req len i) = mem_fault i"
proof -
  have b: "67 \<le> CONFIG_UDS_BUFF_SIZE c" using assms(2) by (simp add: roomy_def)
  have r: "mem_fault (snd (report_dtcs e fs m [0..<16] temp 3 j)) = mem_fault j"
    "\<not> CONFIG_UDS_BUFF_SIZE c < fst (report_dtcs e fs m [0..<16] temp 3 j)"
    if "length (uds_tx_buf j) = CONFIG_UDS_BUFF_SIZE c" for fs m temp j
    using that b report_dtcs_safe [of 3 "[0..<16]" j e fs m temp] report_dtcs_index_le [of e fs m "[0..<16]" temp 3 j]
    by simp_all
  have f: "\<not> CONFIG_UDS_BUFF_SIZE c < 5 + length (fst (snd (uds_app_get_freeze_frame (app e) evs d k n (CONFIG_UDS_BUFF_SIZE c - 5))))"
    "fst (uds_app_get_freeze_frame (app e) evs d k n (CONFIG_UDS_BUFF_SIZE c - 5)) = 0 \<Longrightarrow>
      \<not> CONFIG_UDS_BUFF_SIZE c < 5 + snd (snd (uds_app_get_freeze_frame (app e) evs d k n (CONFIG_UDS_BUFF_SIZE c - 5)))"
    for evs d k n
    using b hooks_boundedD(3,4) [OF assms(1), of evs d k n "CONFIG_UDS_BUFF_SIZE c - 5"] by simp_all
  have s: "3 \<le> CONFIG_UDS_BUFF_SIZE c" "4 < CONFIG_UDS_BUFF_SIZE c" using b by simp_all
  show ?thesis
    using assms(3) r f s b
    by (simp add: uds_read_dtc_handle_def Let_def case_prod_beta del: upt_Suc upt.simps split: option.split)
qed

lemma security_safe:
  assumes "roomy c" "length (uds_tx_buf i) = CONFIG_UDS_BUFF_SIZE c"
  shows "mem_fault (snd (uds_security_handle_request c e send nrc req len (ss, i))) = mem_fault i"
proof -
  have n: "CONFIG_UDS_SEC_SEED_SIZE c \<le> 4" "67 \<le> length (uds_tx_buf i)"
    using assms by (simp_all add: roomy_def)
  then have s: "\<not> length (uds_tx_buf i) < Suc (Suc (CONFIG_UDS_SEC_SEED_SIZE c))"
    "\<not> length (uds_tx_buf i) < Suc (Suc (min k (CONFIG_UDS_SEC_SEED_SIZE c)))"
    "\<not> length (uds_tx_buf i) < Suc 0" "\<not> length (uds_tx_buf i) < 2" "uds_tx_buf i \<noteq> []" for k
    by auto
  show ?thesis
    using n(1) s by (simp add: security_handle_defs)
qed


lemma small_handlers_safe:
  assumes "5 \<le> length (uds_tx_buf i)"
  shows "mem_fault (snd (uds_reset_handle send nrc req len (rs, i))) = mem_fault i"
    "mem_fault (snd (uds_clear_dtc_handle e send nrc req len (cs, i))) = mem_fault i"
    "mem_fault (uds_write_did_handle e ses ss send nrc req len i) = mem_fault i"
    "mem_fault (snd (uds_handle_periodic_request send nrc req len (ps, i))) = mem_fault i"
    "mem_fault (snd (uds_handle_define_dynamic_did send nrc req len (dm, i))) = mem_fault i"
    "mem_fault (uds_handle_io_control e ses ss send nrc req len i) = mem_fault i"
    "mem_fault (snd (uds_routine_handle_control e ses send nrc req len (ros, i))) = mem_fault i"
    "mem_fault (snd (uds_handle_request_download c e ses ss send nrc req len (fl, i))) = mem_fault i"
    "mem_fault (snd (uds_handle_transfer_data e send nrc req len (fl, i))) = mem_fault i"
    "mem_fault (snd (uds_handle_request_transfer_exit send nrc req len (fl, i))) = mem_fault i"
    "mem_fault (uds_event_case req len i) = mem_fault i"
    "mem_fault (uds_tester_present_case req len i) = mem_fault i"
proof -
  have s: "\<not> length (uds_tx_buf i) < k" if "k \<le> 5" for k using assms that by simp
  have n: "\<not> length (uds_tx_buf i) < Suc 0" "uds_tx_buf i \<noteq> []" using assms by auto
  note s1 = s [of 2] s [of 3] s [of 4] s [of 5]
  show "mem_fault (snd (uds_reset_handle send nrc req len (rs, i))) = mem_fault i"
    using n s1 by (simp add: uds_reset_handle_def Let_def)
  show "mem_fault (snd (uds_clear_dtc_handle e send nrc req len (cs, i))) = mem_fault i"
    by (simp add: uds_clear_dtc_handle_def Let_def)
  show "mem_fault (uds_write_did_handle e ses ss send nrc req len i) = mem_fault i"
    using n s1 by (simp add: uds_write_did_handle_def Let_def)
  show "mem_fault (snd (uds_handle_periodic_request send nrc req len (ps, i))) = mem_fault i"
    by (simp add: uds_handle_periodic_request_def Let_def)
  show "mem_fault (snd (uds_handle_define_dynamic_did send nrc req len (dm, i))) = mem_fault i"
    by (simp add: uds_handle_define_dynamic_did_def Let_def)
  show "mem_fault (uds_handle_io_control e ses ss send nrc req len i) = mem_fault i"
    using n s1 by (simp add: uds_handle_io_control_def Let_def case_prod_beta)
  show "mem_fault (snd (uds_routine_handle_control e ses send nrc req len (ros, i))) = mem_fault i"
    by (simp add: uds_routine_handle_control_def Let_def case_prod_beta)
  show "mem_fault (snd (uds_handle_request_download c e ses ss send nrc req len (fl, i))) = mem_fault i"
    using n s1 by (simp add: uds_handle_request_download_def Let_def case_prod_beta)
  show "mem_fault (snd (uds_handle_transfer_data e send nrc req len (fl, i))) = mem_fault i"
    using n s1 by (simp add: uds_handle_transfer_data_def Let_def)
  show "mem_fault (snd (uds_handle_request_transfer_exit send nrc req len (fl, i))) = mem_fault i"
    using n s1 by (simp add: uds_handle_request_transfer_exit_def Let_def)
  show "mem_fault (uds_event_case req len i) = mem_fault i"
    using n s1 by (simp add: uds_event_case_def Let_def)
  show "mem_fault (uds_tester_present_case req len i) = mem_fault i"
    using n s1 by (simp add: uds_tester_present_case_def Let_def)
qed

lemma session_case_safe:
  "2 \<le> length (uds_tx_buf (io_st s)) \<Longrightarrow> mem_fault (io_st (uds_session_case c req len s)) = mem_fault (io_st s)"
  by (auto simp: uds_session_case_def Let_def uds_session_set_def refresh_timer_eq)

lemma dispatch_safe:
  assumes "hooks_bounded (app e)" "roomy c" "length (uds_tx_buf (io_st s)) = CONFIG_UDS_BUFF_SIZE c"
    "slices_ok (dyn_st s)"
  shows "mem_fault (io_st (uds_dispatch c e req len a s)) = mem_fault (io_st s)"
proof -
  have b: "5 \<le> length (uds_tx_buf (io_st s))" "2 \<le> length (uds_tx_buf (io_st s))"
    using assms(2,3) by (simp_all add: roomy_def)
  show ?thesis
    by (cases a) (simp_all add: uds_dispatch_def Let_def session_case_safe [OF b(2)] small_handlers_safe [OF b(1)]
      read_did_safe [OF assms] read_dtc_safe [OF assms(1-3)] security_safe [OF assms(2,3)])
qed

lemma sample_safe:
  assumes "hooks_bounded (app e)"
  shows "length (periodic_tx_buf ps) = 16 \<Longrightarrow>
     mem_fault (snd (sample_dids e send ks (ps, i))) = mem_fault i"
proof (induction ks arbitrary: ps i)
  case (Cons k ks)
  have "\<not> 16 < Suc (Suc (length (fst (snd (uds_app_get_periodic_did (app e) evs d n)))))"
    "fst (uds_app_get_periodic_did (app e) evs d n) = 0 \<Longrightarrow>
       \<not> 16 < Suc (Suc (snd (snd (uds_app_get_periodic_did (app e) evs d n))))" for evs d n
    using hooks_boundedD(5,6) [OF assms, where evs = evs and p = d and n = n] by simp_all
  with Cons.prems show ?case
    by (simp add: Let_def case_prod_beta Cons.IH)
qed simp

lemma round_safe:
  assumes "hooks_bounded (app e)" "periodic_inv ps"
  shows "mem_fault (snd (uds_periodic_thread_round e (ps, i))) = mem_fault i"
  using assms sample_safe [OF assms(1), of ps]
  by (simp add: uds_periodic_thread_round_def Let_def periodic_inv_def split: option.split)

lemma booted_safe:
  assumes "fst (uds_init c e (system_0 c)) = 0" "storage_usable e"
  shows "\<not> mem_fault (io_st (booted c e))"
proof -
  have u: "snd (flash_get_page_info_by_offs e evs) = 0 \<longleftrightarrow> False" for evs
    using assms(2) by (simp add: storage_usable_def)
  show ?thesis
    by (simp add: booted_sel(13) [OF assms(1)] uds_security_init_def Let_def case_prod_beta u)
qed

section \<open>The dynamic identifier on every run\<close>

definition dyn_ok :: "dynamic_did_map \<Rightarrow> bool" where
  "dyn_ok dm \<longleftrightarrow> (entry_count dm = 0 \<or> entry_count dm = 1) \<and> length (entries dm) = 4"

lemma dyn_ok_define: "dyn_ok dm \<Longrightarrow> dyn_ok (fst (uds_handle_define_dynamic_did send nrc req len (dm, i)))"
  by (simp add: dyn_ok_def uds_handle_define_dynamic_did_def Let_def)

lemma reachable_dyn: "reachable c e s \<Longrightarrow> dyn_ok (dyn_st s)"
proof (induction rule: reachable_invariant)
  case boot
  then show ?case by (simp add: booted_sel dyn_map_0_def dyn_ok_def)
next
  case (request s a buf len)
  then show ?case by (simp add: dispatch_dyn dyn_ok_define)
qed simp_all

lemma dyn_slices:
  assumes "dyn_ok dm" "entry_count dm \<noteq> 0 \<Longrightarrow> slice_in_buf (entries dm ! 0)"
  shows "slices_ok dm"
proof -
  obtain d ds where "entries dm = d # ds" using assms(1) by (cases "entries dm") (auto simp: dyn_ok_def)
  with assms show ?thesis by (auto simp: dyn_ok_def slices_ok_def)
qed

section \<open>Arrays and stored callbacks\<close>

text \<open>
  Every array has its declared length and every index variable stays inside it; a callback that the
  periodic thread or a submitted work item is going to use has been stored.
\<close>

definition well_typed :: "kconfig \<Rightarrow> system \<Rightarrow> bool" where
  "well_typed c s \<longleftrightarrow>
     buffers_ok c s \<and> seed_ok c (security_st s) \<and> dyn_ok (dyn_st s) \<and>
     length (local_routine_tx_buf (routine_st s)) = 5 \<and>
     (active_did_count (periodic_st s) \<noteq> 0 \<longrightarrow> periodic_send_cb (periodic_st s) \<noteq> None) \<and>
     (work_busy Routine_work (tr s) \<longrightarrow> stored_routine_send_cb (routine_st s) \<noteq> None \<and>
        stored_routine_nrc_cb (routine_st s) \<noteq> None) \<and>
     (work_busy Clear_dtc_work (tr s) \<longrightarrow> stored_send_cb (clear_st s) \<noteq> None \<and> stored_nrc_cb (clear_st s) \<noteq> None)"

lemma seed_ok_handle:
  "seed_ok c ss \<Longrightarrow> seed_ok c (fst (uds_security_handle_request c e send nrc req len (ss, i)))"
  by (auto simp: seed_ok_def security_handle_defs uptime_seed_def)

lemma seed_ok_reset_lock: "seed_ok c (uds_security_reset_lock ss) = seed_ok c ss"
  by (simp add: seed_ok_def uds_security_reset_lock_def)

lemma dispatch_callbacks:
  assumes "uds_tx_buf (io_st s) \<noteq> []"
    "work_busy Routine_work (trace (io_st s)) \<longrightarrow> stored_routine_send_cb (routine_st s) \<noteq> None \<and>
        stored_routine_nrc_cb (routine_st s) \<noteq> None"
    "work_busy Clear_dtc_work (trace (io_st s)) \<longrightarrow> stored_send_cb (clear_st s) \<noteq> None \<and> stored_nrc_cb (clear_st s) \<noteq> None"
    and t: "t = uds_dispatch c e req len a s"
  shows "work_busy Routine_work (trace (io_st t)) \<longrightarrow> stored_routine_send_cb (routine_st t) \<noteq> None \<and>
        stored_routine_nrc_cb (routine_st t) \<noteq> None"
    "work_busy Clear_dtc_work (trace (io_st t)) \<longrightarrow> stored_send_cb (clear_st t) \<noteq> None \<and> stored_nrc_cb (clear_st t) \<noteq> None"
proof -
  show "work_busy Routine_work (trace (io_st t)) \<longrightarrow> stored_routine_send_cb (routine_st t) \<noteq> None \<and>
        stored_routine_nrc_cb (routine_st t) \<noteq> None"
  proof (cases "req ! 0 = 0x31")
    case True
    then have "t = on_routine (uds_routine_handle_control e (session_st s) Uds_send_response Uds_send_nrc req len) s"
      by (simp add: t uds_dispatch_def Let_def)
    then show ?thesis using assms(2) by (simp add: uds_routine_handle_control_def Let_def case_prod_beta)
  next
    case False
    then show ?thesis
      using assms(1,2) ignores_dispatch [of "work_busy Routine_work" req s c e len a] by (simp add: t dispatch_routine)
  qed
  show "work_busy Clear_dtc_work (trace (io_st t)) \<longrightarrow> stored_send_cb (clear_st t) \<noteq> None \<and> stored_nrc_cb (clear_st t) \<noteq> None"
  proof (cases "req ! 0 = 0x14")
    case True
    then have "t = on_clear (uds_clear_dtc_handle e Uds_send_response Uds_send_nrc req len) s"
      by (simp add: t uds_dispatch_def Let_def)
    then show ?thesis using assms(3) by (simp add: uds_clear_dtc_handle_def Let_def)
  next
    case False
    then show ?thesis
      using assms(1,3) ignores_dispatch [of "work_busy Clear_dtc_work" req s c e len a] by (simp add: t dispatch_clear)
  qed
qed

lemma reachable_well_typed:
  assumes "reachable c e s" "kconfig_ok c"
  shows "well_typed c s"
  using assms(1)
proof (induction rule: reachable_invariant)
  case boot
  then show ?case
    using reachable_buffers [OF reachable.boot [OF boot] assms(2)] boot_work [OF boot_trace [OF boot]]
    by (simp add: well_typed_def booted_sel routine_state_0_def periodic_state_0_def dyn_ok_def dyn_map_0_def
        seed_ok_def security_state_0_def)
next
  case (request s a buf len)
  define t where "t = uds_dispatch c e buf len a (accepted c a s)"
  have b: "uds_tx_buf (io_st (accepted c a s)) \<noteq> []" using reachable_tx_buf [OF request(1) assms(2)] by simp
  have cb: "work_busy Routine_work (tr t) \<longrightarrow> stored_routine_send_cb (routine_st t) \<noteq> None \<and>
        stored_routine_nrc_cb (routine_st t) \<noteq> None"
    "work_busy Clear_dtc_work (tr t) \<longrightarrow> stored_send_cb (clear_st t) \<noteq> None \<and> stored_nrc_cb (clear_st t) \<noteq> None"
    using request.IH dispatch_callbacks [OF b _ _ t_def] by (simp_all add: well_typed_def timer_mode_s3_event)
  have "buffers_ok c t"
    using request.IH dispatch_tx_length [OF b, of c e buf len a] by (simp add: t_def well_typed_def buffers_ok_def dispatch_periodic periodic_inv_handle)
  moreover have "seed_ok c (security_st t)"
    using request.IH by (simp add: t_def well_typed_def dispatch_security seed_ok_handle seed_ok_reset_lock)
  moreover have "dyn_ok (dyn_st t)" using request.IH by (simp add: t_def well_typed_def dispatch_dyn dyn_ok_define)
  moreover have "length (local_routine_tx_buf (routine_st t)) = 5"
    using request.IH by (simp add: t_def well_typed_def dispatch_routine uds_routine_handle_control_def Let_def case_prod_beta)
  moreover have "active_did_count (periodic_st t) \<noteq> 0 \<longrightarrow> periodic_send_cb (periodic_st t) \<noteq> None"
    using request.IH by (simp add: t_def well_typed_def dispatch_periodic uds_handle_periodic_request_def Let_def)
  ultimately show ?case using cb unfolding t_def [symmetric] well_typed_def by blast
next
  case (periodic s)
  then show ?case
    using reachable_tx_buf [OF periodic(1) assms(2)] periodic_inv_round [where ps = "periodic_st s" and e = e and i = "io_st s"]
    by (simp add: well_typed_def buffers_ok_def sampled_def ignores_round [where F = "work_busy w" for w])
qed (auto dest!: next_busy dest: queued_busy simp: well_typed_def buffers_ok_def seed_ok_def uds_security_reset_lock_def
    routine_worker_finish_def Let_def nrc_trace_def split: option.splits)

end
