(* ===== verification/Uds_Interleaving.thy ===== *)
theory Uds_Interleaving
  imports Uds_Rely Uds_Access Uds_Memory
begin

text \<open>
  The two threads among the timers and the work queue: the outlines of all their programs, and with them what
  holds on every interleaving. The assertions of the receive thread look at the session, the security
  status, the attempt counter, the two timers, the number of periodic identifiers and what the trace says of keys,
  hooks and links.
\<close>

section \<open>What the assertions look at\<close>

text \<open>The last key checked was accepted, whatever has happened since.\<close>

fun key_proved :: "env \<Rightarrow> trace \<Rightarrow> bool" where
  "key_proved e [] \<longleftrightarrow> False"
| "key_proved e (App_verify_key_krypto l sd k # evs) \<longleftrightarrow>
     uds_app_verify_key_krypto (app e) evs l sd k = 0"
| "key_proved e (_ # evs) \<longleftrightarrow> key_proved e evs"

text \<open>A link is bound, to the identifiers and options of the configuration, and a message has been asked for.\<close>

fun link_id :: "kconfig \<Rightarrow> link \<Rightarrow> isotp_msg_id" where
  "link_id c Rx_link = rx_link c"
| "link_id c Func_rx_link = func_rx_link c"

fun link_up :: "kconfig \<Rightarrow> env \<Rightarrow> link \<Rightarrow> trace \<Rightarrow> bool" where
  "link_up c e l [] \<longleftrightarrow> False"
| "link_up c e l (Isotp_bind l' rx tx fc # evs) \<longleftrightarrow>
     (if l' = l then rx = link_id c l \<and> tx = tx_link c \<and> fc = fc_opts \<and> isotp_bind e evs l = 0
      else link_up c e l evs)"
| "link_up c e l (_ # evs) \<longleftrightarrow> link_up c e l evs"

fun heard :: "trace \<Rightarrow> bool" where
  "heard [] \<longleftrightarrow> False"
| "heard (Isotp_recv l n # evs) \<longleftrightarrow> True"
| "heard (_ # evs) \<longleftrightarrow> heard evs"

record outlook =
  o_status :: uds_security_status
  o_counter :: nat
  o_failures :: nat
  o_proved :: bool
  o_lockout :: "nat option"
  o_session :: uds_session_type
  o_s3 :: "nat option"
  o_guarded :: bool
  o_streaming :: bool
  o_erased :: bool
  o_rx :: bool
  o_func :: bool
  o_heard :: bool
  o_count :: nat

definition outlook_of :: "kconfig \<Rightarrow> env \<Rightarrow> system \<Rightarrow> outlook" where
  "outlook_of c e s =
     \<lparr>o_status = security_status (security_st s),
      o_counter = unat (failed_attempts_counter (security_st s)),
      o_failures = failures e (tr s), o_proved = key_proved e (tr s),
      o_lockout = timer_mode Lockout_timer (tr s),
      o_session = current_session (session_st s), o_s3 = timer_mode S3_timer (tr s),
      o_guarded = guarded_by (key_proved e) e (tr s),
      o_streaming = streaming (flash_st s), o_erased = erase_accepted e (tr s),
      o_rx = link_up c e Rx_link (tr s), o_func = link_up c e Func_rx_link (tr s), o_heard = heard (tr s),
      o_count = unat (active_did_count (periodic_st s))\<rparr>"

lemma outlook_sel:
  "o_status (outlook_of c e s) = security_status (security_st s)"
  "o_counter (outlook_of c e s) = unat (failed_attempts_counter (security_st s))"
  "o_failures (outlook_of c e s) = failures e (tr s)"
  "o_proved (outlook_of c e s) = key_proved e (tr s)"
  "o_lockout (outlook_of c e s) = timer_mode Lockout_timer (tr s)"
  "o_session (outlook_of c e s) = current_session (session_st s)"
  "o_s3 (outlook_of c e s) = timer_mode S3_timer (tr s)"
  "o_guarded (outlook_of c e s) = guarded_by (key_proved e) e (tr s)"
  "o_rx (outlook_of c e s) = link_up c e Rx_link (tr s)" "o_func (outlook_of c e s) = link_up c e Func_rx_link (tr s)"
  "o_heard (outlook_of c e s) = heard (tr s)"
  "o_count (outlook_of c e s) = unat (active_did_count (periodic_st s))"
  by (simp_all add: outlook_of_def)

text \<open>The two background steps that change it.\<close>

definition s3_outlook :: "outlook \<Rightarrow> outlook" where
  "s3_outlook v =
     v\<lparr>o_status := (if o_session v = UDS_SESSION_DEFAULT \<or> o_status v = UDS_SEC_BRUTE_FORCE_LOCKOUT
          then o_status v else UDS_SEC_LOCKED),
       o_session := UDS_SESSION_DEFAULT, o_s3 := None\<rparr>"

definition lockout_outlook :: "outlook \<Rightarrow> outlook" where
  "lockout_outlook v = v\<lparr>o_status := UDS_SEC_LOCKED, o_counter := 0, o_failures := 0, o_lockout := None\<rparr>"

lemma ignores_key_proved [simp]:
  "ignores (key_proved e) periodic_event"
  "sid \<noteq> 0x27 \<Longrightarrow> ignores (key_proved e) (service_event sid)"
proof -
  have "periodic_event ev \<Longrightarrow> key_proved e (ev # evs) = key_proved e evs" for ev evs
    by (cases ev) simp_all
  then show "ignores (key_proved e) periodic_event" by (simp add: ignores_def)
next
  assume "sid \<noteq> 0x27"
  then have "service_event sid ev \<Longrightarrow> key_proved e (ev # evs) = key_proved e evs" for ev evs
    by (cases ev) (simp_all add: service_event_def)
  then show "ignores (key_proved e) (service_event sid)" by (simp add: ignores_def)
qed

lemma ignores_links [simp]:
  "ignores (link_up c e l) periodic_event" "ignores heard periodic_event"
  "ignores (link_up c e l) (service_event sid)" "ignores heard (service_event sid)"
proof -
  have "periodic_event ev \<or> service_event sid ev \<Longrightarrow>
      link_up c e l (ev # evs) = link_up c e l evs \<and> heard (ev # evs) = heard evs" for ev evs
    by (cases ev) (auto simp: service_event_def)
  then show "ignores (link_up c e l) periodic_event" "ignores heard periodic_event"
    "ignores (link_up c e l) (service_event sid)" "ignores heard (service_event sid)"
    by (simp_all add: ignores_def)
qed

lemma scans_nrc [simp]:
  "link_up c e l (nrc_trace sid nrc a @ evs) = link_up c e l evs"
  "heard (nrc_trace sid nrc a @ evs) = heard evs"
  "failures e (nrc_trace sid nrc a @ evs) = failures e evs"
  "key_proved e (nrc_trace sid nrc a @ evs) = key_proved e evs"
  by (simp_all add: nrc_trace_def)

lemma scans_s3_event [simp]:
  "failures e (s3_event c ses # evs) = failures e evs"
  "key_proved e (s3_event c ses # evs) = key_proved e evs"
  by (simp_all add: s3_event_def)

section \<open>What the background does to it\<close>

lemma background_buffers: "background e s t \<Longrightarrow> buffers_ok c s \<Longrightarrow> buffers_ok c t"
  by (auto elim!: background.cases simp: buffers_ok_def)

lemma background_periodic: "background e s t \<Longrightarrow> periodic_st t = periodic_st s"
  by (auto elim!: background.cases)

lemma background_outlook:
  assumes "background e s t"
    "timer_mode S3_timer (tr s) \<in> {None, Some 0}" "timer_mode Lockout_timer (tr s) \<in> {None, Some 0}"
  shows "outlook_of c e t = outlook_of c e s \<or>
    o_s3 (outlook_of c e s) \<noteq> None \<and> outlook_of c e t = s3_outlook (outlook_of c e s) \<or>
    o_lockout (outlook_of c e s) \<noteq> None \<and> outlook_of c e t = lockout_outlook (outlook_of c e s)"
  using assms(1)
proof cases
  case s3
  then show ?thesis
    using assms(2) by (auto simp: outlook_of_def s3_outlook_def timer_running_def uds_security_reset_lock_def)
next
  case lockout
  then show ?thesis
    using assms(3) by (auto simp: outlook_of_def lockout_outlook_def timer_running_def)
qed (auto simp: outlook_of_def nrc_trace_def split: option.splits)

section \<open>The assertions\<close>

definition base :: "outlook \<Rightarrow> bool" where
  "base v \<longleftrightarrow> o_s3 v \<in> {None, Some 0} \<and> o_lockout v \<in> {None, Some 0} \<and> o_guarded v \<and>
     (o_streaming v \<longrightarrow> o_erased v) \<and> (o_status v = UDS_SEC_UNLOCKED \<longrightarrow> o_proved v)"

definition sound :: "outlook \<Rightarrow> bool" where
  "sound v \<longleftrightarrow> base v \<and> o_rx v \<and> o_func v"

definition counted :: "nat \<Rightarrow> outlook \<Rightarrow> bool" where
  "counted m v \<longleftrightarrow> o_failures v \<le> o_counter v \<and> o_counter v \<le> m \<and>
     (o_status v = UDS_SEC_BRUTE_FORCE_LOCKOUT \<longrightarrow> o_lockout v = Some 0 \<and> o_counter v = m) \<and>
     (o_status v \<noteq> UDS_SEC_BRUTE_FORCE_LOCKOUT \<longrightarrow> o_lockout v = None \<and> o_counter v < m)"

definition clocked :: "outlook \<Rightarrow> bool" where
  "clocked v \<longleftrightarrow> (o_session v \<noteq> UDS_SESSION_DEFAULT \<longrightarrow> o_s3 v = Some 0)"

definition rest :: "nat \<Rightarrow> outlook \<Rightarrow> bool" where
  "rest m v \<longleftrightarrow> sound v \<and> counted m v \<and> clocked v"

definition calm :: "nat \<Rightarrow> outlook \<Rightarrow> bool" where
  "calm m v \<longleftrightarrow> rest m v \<and> o_status v \<noteq> UDS_SEC_BRUTE_FORCE_LOCKOUT"

text \<open>Before the links are bound.\<close>

definition deaf :: "nat \<Rightarrow> outlook \<Rightarrow> bool" where
  "deaf m v \<longleftrightarrow> base v \<and> counted m v \<and> clocked v \<and> \<not> o_heard v"

text \<open>A key has been accepted; a key has been rejected, before and after it is counted.\<close>

definition accepted_key :: "nat \<Rightarrow> outlook \<Rightarrow> bool" where
  "accepted_key m v \<longleftrightarrow> calm m v \<and> o_proved v \<and> o_failures v = 0"

definition uncounted :: "nat \<Rightarrow> nat \<Rightarrow> outlook \<Rightarrow> bool" where
  "uncounted m d v \<longleftrightarrow> sound v \<and> clocked v \<and> o_lockout v = None \<and>
     o_status v \<noteq> UDS_SEC_BRUTE_FORCE_LOCKOUT \<and> o_status v \<noteq> UDS_SEC_UNLOCKED \<and>
     o_failures v \<le> o_counter v + d \<and> o_counter v + d \<le> m"

definition locking :: "nat \<Rightarrow> outlook \<Rightarrow> bool" where
  "locking m v \<longleftrightarrow> sound v \<and> clocked v \<and> o_lockout v = None \<and>
     o_status v = UDS_SEC_BRUTE_FORCE_LOCKOUT \<and> o_failures v \<le> o_counter v \<and> o_counter v = m"

text \<open>At every point the rejected keys are within the maximum and the hooks guarded.\<close>

definition good :: "nat \<Rightarrow> outlook \<Rightarrow> bool" where
  "good m v \<longleftrightarrow> o_failures v \<le> m \<and> o_guarded v \<and> (o_heard v \<longrightarrow> o_rx v \<and> o_func v)"

lemmas assertion_defs =
  base_def sound_def deaf_def counted_def clocked_def rest_def calm_def accepted_key_def uncounted_def locking_def good_def

text \<open>An assertion on states, and when the background keeps it.\<close>

definition seen :: "kconfig \<Rightarrow> env \<Rightarrow> (nat \<Rightarrow> outlook \<Rightarrow> bool) \<Rightarrow> system \<Rightarrow> bool" where
  "seen c e P s \<longleftrightarrow> kconfig_ok c \<and> buffers_ok c s \<and>
     P (CONFIG_UDS_SEC_MAX_FAILED_ATTEMPTS c) (outlook_of c e s)"

definition kept :: "(nat \<Rightarrow> outlook \<Rightarrow> bool) \<Rightarrow> bool" where
  "kept P \<longleftrightarrow> (\<forall>m v. P m v \<and> 0 < m \<longrightarrow> base v \<and> good m v \<and>
     (o_s3 v \<noteq> None \<longrightarrow> P m (s3_outlook v)) \<and> (o_lockout v \<noteq> None \<longrightarrow> P m (lockout_outlook v)))"

lemma kconfig_attempts [simp]: "kconfig_ok c \<Longrightarrow> 0 < CONFIG_UDS_SEC_MAX_FAILED_ATTEMPTS c"
  by (simp add: kconfig_ok_def)

text \<open>
  What the receive thread relies on: beside a background step, something that changes neither the sizes of the buffers
  nor what the assertions look at. What it guarantees: the callback of the periodic thread stays set, and its length
  variable is left alone.
\<close>

definition aside :: "kconfig \<Rightarrow> env \<Rightarrow> system \<Rightarrow> system \<Rightarrow> bool" where
  "aside c e s t \<longleftrightarrow> background e s t \<or>
     (buffers_ok c s \<longrightarrow> buffers_ok c t \<and> outlook_of c e t = outlook_of c e s)"

definition leaves_round :: "system \<Rightarrow> system \<Rightarrow> bool" where
  "leaves_round s t \<longleftrightarrow>
     (periodic_send_cb (periodic_st s) \<noteq> None \<longrightarrow> periodic_send_cb (periodic_st t) \<noteq> None) \<and>
     data_len (periodic_st t) = data_len (periodic_st s)"

lemma leaves_round_simps [simp]:
  "leaves_round s s" "leaves_round s (on_io f s)" "leaves_round s (on_flash f1 s)" "leaves_round s (on_routine f2 s)"
  "leaves_round s (set_status st s)" "leaves_round s (set_counter f3 s)" "leaves_round s (set_seed f4 s)"
  "leaves_round s (set_session ses s)" "leaves_round s (on_io f (set_seed f4 s))"
  by (simp_all add: leaves_round_def)

abbreviation rx_outline ::
    "kconfig \<Rightarrow> env \<Rightarrow> (system \<Rightarrow> bool) \<Rightarrow> system prog \<Rightarrow> bool" where
  "rx_outline c e \<equiv> outline (aside c e) leaves_round (seen c e good) (seen c e rest)"

lemma kept_stable: "kept P \<Longrightarrow> stable (aside c e) (seen c e P)"
proof (unfold stable_def, intro allI impI)
  fix s t assume P: "kept P" "seen c e P s" and st: "aside c e s t"
  define m where "m = CONFIG_UDS_SEC_MAX_FAILED_ATTEMPTS c"
  have m: "0 < m" "buffers_ok c s" "kconfig_ok c" "P m (outlook_of c e s)"
    using P(2) by (simp_all add: seen_def kconfig_ok_def m_def)
  then have "base (outlook_of c e s)" using P(1) by (simp add: kept_def)
  then have modes: "timer_mode S3_timer (tr s) \<in> {None, Some 0}" "timer_mode Lockout_timer (tr s) \<in> {None, Some 0}"
    by (simp_all add: base_def outlook_of_def)
  show "seen c e P t"
  proof (cases "background e s t")
    case True
    from background_outlook [OF True modes, of c] background_buffers [OF True m(2)] m P(1) show ?thesis
      by (auto simp: kept_def seen_def m_def [symmetric])
  next
    case False
    then show ?thesis using st m by (simp add: aside_def seen_def m_def [symmetric])
  qed
qed

lemma kept_good: "kept P \<Longrightarrow> seen c e P s \<Longrightarrow> seen c e good s"
  by (auto simp: kept_def seen_def kconfig_ok_def)

lemma kept_assertions:
  "kept rest" "kept (\<lambda>m v. sound v \<and> counted m v)" "kept calm" "kept accepted_key"
  "kept (\<lambda>m v. calm m v \<and> o_status v \<noteq> UDS_SEC_UNLOCKED)"
  "kept (\<lambda>m v. sound v \<and> counted m v \<and> o_session v = UDS_SESSION_DEFAULT)"
  "kept (\<lambda>m v. calm m v \<and> o_failures v = 0)"
  "kept (\<lambda>m v. rest m v \<and> (b \<longrightarrow> o_proved v))"
  "kept (\<lambda>m. uncounted m d)" "kept (\<lambda>m v. uncounted m 0 v \<and> o_counter v = m)"
  "kept (\<lambda>m v. uncounted m 0 v \<and> o_counter v < m)" "kept locking"
  "kept deaf" "kept (\<lambda>m v. deaf m v \<and> o_rx v)" "kept (\<lambda>m v. rest m v \<and> o_count v < 5)"
  unfolding kept_def assertion_defs s3_outlook_def lockout_outlook_def
  by (simp_all split: if_splits)

section \<open>The outlines of the receive thread\<close>

lemma seen_act:
  assumes "kept P" "\<And>s. seen c e P s \<Longrightarrow> seen c e Q (f s) \<and> leaves_round s (f s)"
    "rx_outline c e (seen c e Q) p"
  shows "rx_outline c e (seen c e P) (act f p)"
  using assms by (intro outline_act [where B = "seen c e Q"]) (auto intro: kept_stable kept_good)

lemma seen_Act:
  assumes "kept P" "\<And>s. seen c e P s \<Longrightarrow> B s (f s) \<and> leaves_round s (f s)"
    "\<And>s. seen c e P s \<Longrightarrow> rx_outline c e (B s) (g s)"
  shows "rx_outline c e (seen c e P) (Act f g)"
  using assms by (intro outline.act [where B = B]) (auto intro: kept_stable kept_good)

lemma seen_ask:
  assumes "kept P"
    "\<And>s. seen c e P s \<Longrightarrow> b s \<Longrightarrow> seen c e Q s"
    "rx_outline c e (seen c e Q) p"
    "\<And>s. seen c e P s \<Longrightarrow> \<not> b s \<Longrightarrow> seen c e Q' s"
    "rx_outline c e (seen c e Q') q"
  shows "rx_outline c e (seen c e P) (ask b p q)"
  using assms by (intro outline_ask [where B = "seen c e Q" and B' = "seen c e Q'"]) (auto intro: kept_stable kept_good)

lemma seen_weaken:
  assumes "rx_outline c e (seen c e P) p" "kept Q" "\<And>m v. Q m v \<Longrightarrow> P m v"
  shows "rx_outline c e (seen c e Q) p"
  using assms by (intro outline_weaken [OF assms(1) kept_stable [OF assms(2)]]) (auto simp: seen_def)

lemma seen_poll: "rx_outline c e (seen c e rest) Poll"
  by (rule outline.poll)

text \<open>An action that only makes calls or writes the transmit buffer.\<close>

lemma outlook_set [simp]:
  "outlook_of c e (set_status st s) = (outlook_of c e s)\<lparr>o_status := st\<rparr>"
  "outlook_of c e (set_counter f s) = (outlook_of c e s)\<lparr>o_counter := unat (f (failed_attempts_counter (security_st s)))\<rparr>"
  "outlook_of c e (set_seed g s) = outlook_of c e s"
  "outlook_of c e (set_session ses s) = (outlook_of c e s)\<lparr>o_session := ses\<rparr>"
  by (simp_all add: outlook_of_def set_defs)

lemma buffers_set [simp]:
  "buffers_ok c (set_status st s) = buffers_ok c s" "buffers_ok c (set_counter f s) = buffers_ok c s"
  "buffers_ok c (set_seed g s) = buffers_ok c s" "buffers_ok c (set_session ses s) = buffers_ok c s"
  by (simp_all add: buffers_ok_def set_defs)

lemma buffers_io [simp]:
  "length (uds_tx_buf (f (io_st s))) = length (uds_tx_buf (io_st s)) \<Longrightarrow> buffers_ok c (on_io f s) = buffers_ok c s"
  by (simp add: buffers_ok_def)

lemma outline_nrc:
  "rx_outline c e (seen c e rest) (nrc_prog sid nrc)"
  unfolding nrc_prog_def
  by (intro seen_act [where Q = rest] kept_assertions seen_poll) (simp_all add: seen_def outlook_of_def)

lemma outline_refresh:
  assumes "rx_outline c e (seen c e rest) p"
  shows "rx_outline c e (seen c e (\<lambda>m v. sound v \<and> counted m v)) (refresh_prog c p)"
  unfolding refresh_prog_def
  by (intro seen_ask [where Q = "\<lambda>m v. sound v \<and> counted m v"
        and Q' = "\<lambda>m v. sound v \<and> counted m v \<and> o_session v = UDS_SESSION_DEFAULT"]
      seen_act [where Q = rest] kept_assertions assms)
    (simp_all add: seen_def outlook_of_def assertion_defs)

lemma seen_poll_act:
  assumes "\<And>s. seen c e rest s \<Longrightarrow> seen c e rest (f s) \<and> leaves_round s (f s)"
  shows "rx_outline c e (seen c e rest) (act f Poll)"
  using assms by (intro seen_act [where Q = rest] kept_assertions seen_poll)

lemma outline_session:
  "rx_outline c e (seen c e rest) (session_prog c req len)"
proof -
  have answer: "rx_outline c e (seen c e rest)
      (act (on_io (\<lambda>i. send_tx Uds_send_response 2 (tx_put 1 [x] (tx_put 0 [y] i)))) Poll)" for x y
    by (rule seen_poll_act) (simp add: seen_def outlook_of_def)
  have session: "rx_outline c e (seen c e rest) (act (set_session ses) (refresh_prog c
      (act (on_io (\<lambda>i. send_tx Uds_send_response 2 (tx_put 1 [x] (tx_put 0 [y] i)))) Poll)))" for ses x y
    by (rule seen_act [where Q = "\<lambda>m v. sound v \<and> counted m v"], rule kept_assertions)
      (simp add: seen_def assertion_defs, rule outline_refresh [OF answer])
  have lock: "seen c e calm s \<Longrightarrow> seen c e rest (set_status UDS_SEC_LOCKED s) \<and> leaves_round s (set_status UDS_SEC_LOCKED s)" for s
    by (simp add: seen_def assertion_defs)
  have look: "seen c e rest s \<Longrightarrow> security_status (security_st s) \<noteq> UDS_SEC_BRUTE_FORCE_LOCKOUT \<Longrightarrow> seen c e calm s" for s
    by (simp add: seen_def calm_def outlook_of_def)
  note whole = seen_ask [OF kept_assertions(1) look seen_act [OF kept_assertions(3) lock session] _ session]
  show ?thesis
    unfolding session_prog_def Let_def by (intro outline_if outline_nrc whole)
qed

lemma outline_granted:
  "rx_outline c e (seen c e accepted_key) (granted_prog sid k)"
  unfolding granted_prog_def
  apply (rule seen_act [where Q = "\<lambda>m v. calm m v \<and> o_failures v = 0"], rule kept_assertions, simp add: seen_def assertion_defs)
  apply (rule seen_act [where Q = rest], rule kept_assertions, simp add: seen_def assertion_defs)
  apply (rule seen_act [where Q = rest], rule kept_assertions, simp add: seen_def outlook_of_def)
  apply (rule seen_poll_act, simp add: seen_def outlook_of_def)
  done

lemma outline_lock:
  "rx_outline c e (seen c e (\<lambda>m v. uncounted m 0 v \<and> o_counter v = m))
      (act (set_status UDS_SEC_BRUTE_FORCE_LOCKOUT)
       (act (on_io (emit (Nvs_write Security_fs NVS_LOCKOUT_STATE_ID [1])))
       (act (on_io (emit (K_timer_start Lockout_timer (CONFIG_UDS_SEC_LOCKOUT_TIME_MS c) 0)))
         (nrc_prog sid UDS_NRC_EXCEEDED_NUMBER_OF_ATTEMPTS))))"
  apply (rule seen_act [where Q = locking], rule kept_assertions, simp add: seen_def assertion_defs)
  apply (rule seen_act [where Q = locking], rule kept_assertions, simp add: seen_def outlook_of_def locking_def)
  apply (simp add: assertion_defs)
  apply (rule seen_act [where Q = rest], rule kept_assertions)
   apply (simp add: seen_def outlook_of_def assertion_defs)
  apply (rule outline_nrc)
  done

lemma outline_rejected:
  "rx_outline c e (seen c e (\<lambda>m. uncounted m 1)) (rejected_prog c sid)"
proof -
  have lock: "rx_outline c e (seen c e (\<lambda>m v. uncounted m 0 v \<and> o_counter v < m))
      (act (set_status UDS_SEC_LOCKED) (nrc_prog sid UDS_NRC_INVALID_KEY))"
    by (rule seen_act [where Q = rest], rule kept_assertions, simp add: seen_def assertion_defs, rule outline_nrc)
  have count: "seen c e (\<lambda>m. uncounted m 0) (set_counter (\<lambda>k. k + 1) s) \<and> leaves_round s (set_counter (\<lambda>k. k + 1) s)" if s: "seen c e (\<lambda>m. uncounted m 1) s" for s
  proof -
    have "unat (failed_attempts_counter (security_st s)) < 255"
      using s by (auto simp: seen_def kconfig_ok_def uncounted_def outlook_of_def)
    from unat_counter_Suc [OF this] s show ?thesis
      by (simp add: seen_def) (simp add: outlook_of_def uncounted_def base_def sound_def clocked_def)
  qed
  show ?thesis
    unfolding rejected_prog_def
    apply (rule seen_act [where Q = "\<lambda>m. uncounted m 0"], rule kept_assertions, erule count)
    apply (rule seen_act [where Q = "\<lambda>m. uncounted m 0"], rule kept_assertions)
     apply (simp add: seen_def outlook_of_def uncounted_def base_def sound_def clocked_def)
    apply (rule seen_ask [OF _ _ outline_lock _ lock], rule kept_assertions)
     apply (simp_all add: seen_def outlook_sel)
    apply (simp add: uncounted_def outlook_sel)
    done
qed

lemma outline_key:
  "rx_outline c e (seen c e calm) (key_prog c e req sid k len)"
proof -
  define n where "n = CONFIG_UDS_SEC_SEED_SIZE c"
  define check where "check s = on_io (\<lambda>i. emit (App_verify_key_krypto (k - 1) (generated_seed (security_st s))
      (received_key c e req i)) (fault_if (n > 16) i)) s" for s :: system
  define valid where "valid s \<longleftrightarrow> uds_app_verify_key_krypto (app e) (tr s) (k - 1)
      (generated_seed (security_st s)) (received_key c e req (io_st s)) = 0" for s :: system
  have verify: "rx_outline c e
      (seen c e (\<lambda>m v. calm m v \<and> o_status v \<noteq> UDS_SEC_UNLOCKED))
      (Act check (\<lambda>s. if valid s then granted_prog sid k else rejected_prog c sid))"
  proof (rule seen_Act [where B = "\<lambda>s. if valid s then seen c e accepted_key else seen c e (\<lambda>m. uncounted m 1)"])
    fix s assume "seen c e (\<lambda>m v. calm m v \<and> o_status v \<noteq> UDS_SEC_UNLOCKED) s"
    then show "(if valid s then seen c e accepted_key else seen c e (\<lambda>m. uncounted m 1)) (check s) \<and> leaves_round s (check s)"
      by (simp add: seen_def check_def valid_def) (auto simp: outlook_of_def assertion_defs)
  qed (auto intro: kept_assertions outline_granted outline_rejected simp del: One_nat_def)
  have calm: "seen c e calm s \<Longrightarrow> seen c e rest s" for s by (simp add: seen_def calm_def)
  have nrc: "rx_outline c e (seen c e calm) (nrc_prog sid nrc)" for nrc
    by (rule seen_weaken [OF outline_nrc kept_assertions(3)]) (simp add: calm_def)
  have seed: "seen c e calm s \<Longrightarrow> \<not> security_status (security_st s) \<noteq> UDS_SEC_SEED_REQUESTED \<Longrightarrow>
      seen c e (\<lambda>m v. calm m v \<and> o_status v \<noteq> UDS_SEC_UNLOCKED) s" for s
    by (simp add: seen_def outlook_of_def)
  show ?thesis
    unfolding key_prog_def Let_def n_def [symmetric] check_def [symmetric] valid_def [symmetric]
    by (intro outline_if nrc seen_ask [OF kept_assertions(3) calm outline_nrc seed verify])
qed

lemma outline_seed:
  "rx_outline c e (seen c e calm) (seed_prog c e sid k len)"
proof -
  define n where "n = CONFIG_UDS_SEC_SEED_SIZE c"
  have calm: "seen c e calm s \<Longrightarrow> seen c e rest s" for s by (simp add: seen_def calm_def)
  have nrc: "rx_outline c e (seen c e calm) (nrc_prog sid nrc)" for nrc
    by (rule seen_weaken [OF outline_nrc kept_assertions(3)]) (simp add: calm_def)
  have answer: "rx_outline c e (seen c e rest) (seed_answer_prog c sid k)"
    unfolding seed_answer_prog_def Let_def
    by (rule seen_act [where Q = rest], rule kept_assertions, simp add: seen_def outlook_of_def,
        rule seen_poll_act, simp add: seen_def outlook_of_def)
  have mark: "rx_outline c e (seen c e calm)
      (act (set_status UDS_SEC_SEED_REQUESTED) (seed_answer_prog c sid k))"
    by (rule seen_act [OF kept_assertions(3) _ answer]) (simp add: seen_def assertion_defs)
  have draw: "rx_outline c e (seen c e calm)
      (act f (act (set_status UDS_SEC_SEED_REQUESTED) (seed_answer_prog c sid k)))"
    if "\<And>s. seen c e calm s \<Longrightarrow> seen c e calm (f s) \<and> leaves_round s (f s)" for f
    using that by (rule seen_act [OF kept_assertions(3) _ mark])
  have fresh: "rx_outline c e (seen c e calm)
     (Act (on_io (emit (Device_is_ready Entropy_dev)))
          (\<lambda>s. if device_is_ready e (tr s) Entropy_dev
             then act (\<lambda>s. on_io (emit (Entropy_get_entropy n))
                        (set_seed (buf_put 0 (take n (entropy_get_entropy e (tr s) n))) s))
                    (act (set_status UDS_SEC_SEED_REQUESTED) (seed_answer_prog c sid k))
             else act (\<lambda>s. on_io (\<lambda>i. fault_if (n > 4) (emit K_uptime_get_32 i))
                        (set_seed (\<lambda>_. uptime_seed n (k_uptime_get_32 e (tr s))) s))
                    (act (set_status UDS_SEC_SEED_REQUESTED) (seed_answer_prog c sid k))))"
    by (rule seen_Act [where B = "\<lambda>_. seen c e calm"], rule kept_assertions, simp add: seen_def outlook_of_def,
        intro outline_if draw; simp add: seen_def outlook_of_def)
  have clear: "rx_outline c e (seen c e calm)
      (act (set_seed f) (seed_answer_prog c sid k))" for f
    by (rule seen_act [OF kept_assertions(3) _ answer]) (simp add: seen_def calm_def)
  show ?thesis
    unfolding seed_prog_def Let_def n_def [symmetric]
    by (intro outline_if nrc seen_ask [OF kept_assertions(3) _ clear _ fresh])
qed

lemma outline_security:
  "rx_outline c e (seen c e rest) (security_prog c e req len)"
proof -
  have calm: "seen c e rest s \<Longrightarrow> \<not> security_status (security_st s) = UDS_SEC_BRUTE_FORCE_LOCKOUT \<Longrightarrow> seen c e calm s" for s
    by (simp add: seen_def calm_def outlook_sel)
  have nrc: "rx_outline c e (seen c e calm) (nrc_prog sid nrc)" for sid nrc
    by (rule seen_weaken [OF outline_nrc kept_assertions(3)]) (simp add: calm_def)
  show ?thesis
    unfolding security_prog_def Let_def
    by (intro outline_if outline_nrc seen_ask [OF kept_assertions(1) _ outline_nrc calm] outline_seed outline_key nrc)
qed

subsection \<open>The services that read the guards\<close>

lemma outline_guard:
  assumes "\<And>ses ss s. seen c e rest s \<Longrightarrow> (security_status ss = UDS_SEC_UNLOCKED \<Longrightarrow> key_proved e (tr s)) \<Longrightarrow>
     seen c e rest (f ses ss s) \<and> leaves_round s (f ses ss s)"
  shows "rx_outline c e (seen c e rest) (guard_prog f)"
proof -
  have call: "rx_outline c e
      (seen c e (\<lambda>m v. rest m v \<and> (security_status ss = UDS_SEC_UNLOCKED \<longrightarrow> o_proved v))) (act (f ses ss) Poll)" for ses ss
    by (rule seen_act [OF kept_assertions(8) _ seen_poll], rule assms) (simp_all add: seen_def outlook_sel)
  have proved: "seen c e rest s \<Longrightarrow>
      seen c e (\<lambda>m v. rest m v \<and> (security_status (security_st s) = UDS_SEC_UNLOCKED \<longrightarrow> o_proved v)) s" for s
    by (simp add: seen_def rest_def sound_def base_def outlook_sel)
  show ?thesis
    unfolding guard_prog_def
    by (rule seen_Act [where B = "\<lambda>_. seen c e rest"], rule kept_assertions, simp,
        rule seen_Act [where B = "\<lambda>s. seen c e (\<lambda>m v. rest m v \<and> (security_status (security_st s) = UDS_SEC_UNLOCKED \<longrightarrow> o_proved v))"],
        rule kept_assertions)
      (simp_all add: proved call)
qed

lemma seen_buffer: "seen c e P s \<Longrightarrow> uds_tx_buf (io_st s) \<noteq> []"
  using kconfig_buff [of c] by (auto simp: seen_def buffers_ok_def)

text \<open>What is left to show of a service: the flash invariant, and that its state is not looked at.\<close>

lemma seen_served:
  assumes "seen c e rest s" "served sid (io_st s) (io_st t)" "sid \<noteq> 0x10" "sid \<noteq> 0x27"
    "guard_inv (key_proved e) e (flash_st s) (tr s) \<Longrightarrow> guard_inv (key_proved e) e (flash_st t) (tr t)"
    "session_st t = session_st s" "security_st t = security_st s" "uds_rx_buf t = uds_rx_buf s"
    "periodic_inv (periodic_st s) \<Longrightarrow> periodic_inv (periodic_st t)"
  shows "seen c e rest t"
proof -
  have "sid \<noteq> timer_service S3_timer" "sid \<noteq> timer_service Lockout_timer" using assms(3,4) by simp_all
  note same = served_ignores [OF assms(2), of "failures e"] served_ignores [OF assms(2), of "key_proved e"]
    served_ignores [OF assms(2) ignores_links(3), of c e] served_ignores [OF assms(2) ignores_links(4)]
    served_ignores [OF assms(2) ignores_timer(2), OF this(1)] served_ignores [OF assms(2) ignores_timer(2), OF this(2)]
  have "guard_inv (key_proved e) e (flash_st s) (tr s)"
    using assms(1) by (simp add: seen_def outlook_of_def rest_def sound_def base_def guard_inv_def)
  from assms(5) [OF this] show ?thesis
    using assms same
    by (simp add: seen_def buffers_ok_def served_def) (simp add: outlook_of_def assertion_defs guard_inv_def)
qed

lemma outline_write_did:
  assumes "req ! 0 = 0x2E"
  shows "rx_outline c e (seen c e rest)
    (guard_prog (\<lambda>ses ss. on_io (uds_write_did_handle e ses ss send nrc req len)))"
proof (rule outline_guard)
  fix ses and ss :: security_state and s assume s: "seen c e rest s" "security_status ss = UDS_SEC_UNLOCKED \<Longrightarrow> key_proved e (tr s)"
  show "seen c e rest (on_io (uds_write_did_handle e ses ss send nrc req len) s) \<and> leaves_round s (on_io (uds_write_did_handle e ses ss send nrc req len) s)"
    using seen_served [OF s(1), of "0x2E" "on_io (uds_write_did_handle e ses ss send nrc req len) s"]
      wdid.serves [OF seen_buffer [OF s(1)] assms, of e ses ss send nrc len "()"]
      guarded_write_did(1) [of "key_proved e" e "io_st s" ss ses send nrc req len] s(2)
      served_ignores [of "0x2E" "io_st s" "uds_write_did_handle e ses ss send nrc req len (io_st s)" "erase_accepted e"]
    by (simp add: guard_inv_def)
qed

lemma outline_io_control:
  assumes "req ! 0 = 0x2F"
  shows "rx_outline c e (seen c e rest)
    (guard_prog (\<lambda>ses ss. on_io (uds_handle_io_control e ses ss send nrc req len)))"
proof (rule outline_guard)
  fix ses and ss :: security_state and s assume s: "seen c e rest s" "security_status ss = UDS_SEC_UNLOCKED \<Longrightarrow> key_proved e (tr s)"
  show "seen c e rest (on_io (uds_handle_io_control e ses ss send nrc req len) s) \<and> leaves_round s (on_io (uds_handle_io_control e ses ss send nrc req len) s)"
    using seen_served [OF s(1), of "0x2F" "on_io (uds_handle_io_control e ses ss send nrc req len) s"]
      ioc.serves [OF seen_buffer [OF s(1)] assms, of e ses ss send nrc len "()"]
      guarded_write_did(2) [of "key_proved e" e "io_st s" ss ses send nrc req len] s(2)
      served_ignores [of "0x2F" "io_st s" "uds_handle_io_control e ses ss send nrc req len (io_st s)" "erase_accepted e"]
    by (simp add: guard_inv_def)
qed

lemma outline_download:
  assumes "req ! 0 = 0x34"
  shows "rx_outline c e (seen c e rest)
    (guard_prog (\<lambda>ses ss. on_flash (uds_handle_request_download c e ses ss send nrc req len)))"
proof (rule outline_guard)
  fix ses and ss :: security_state and s assume s: "seen c e rest s" "security_status ss = UDS_SEC_UNLOCKED \<Longrightarrow> key_proved e (tr s)"
  show "seen c e rest (on_flash (uds_handle_request_download c e ses ss send nrc req len) s) \<and> leaves_round s (on_flash (uds_handle_request_download c e ses ss send nrc req len) s)"
    using seen_served [OF s(1), of "0x34" "on_flash (uds_handle_request_download c e ses ss send nrc req len) s"]
      rdl.serves [OF seen_buffer [OF s(1)] assms, of c e ses ss send nrc len "flash_st s"]
      guarded_download [of "key_proved e" e "flash_st s" "io_st s" ss c ses send nrc req len] s(2)
    by simp
qed

subsection \<open>The services the work queue and the reset timer go on with\<close>

lemma set_work_outlook [simp]:
  "outlook_of c e (set_reset f s) = outlook_of c e s" "outlook_of c e (set_routine g s) = outlook_of c e s"
  "outlook_of c e (set_clear h s) = outlook_of c e s"
  "buffers_ok c (set_reset f s) = buffers_ok c s" "buffers_ok c (set_routine g s) = buffers_ok c s"
  "buffers_ok c (set_clear h s) = buffers_ok c s"
  "leaves_round s (set_reset f s)" "leaves_round s (set_routine g s)" "leaves_round s (set_clear h s)"
  by (simp_all add: outlook_of_def buffers_ok_def leaves_round_def set_defs)

lemma outline_plain:
  assumes "\<And>s. seen c e rest s \<Longrightarrow> outlook_of c e (f s) = outlook_of c e s \<and> buffers_ok c (f s) \<and> leaves_round s (f s)"
    and "rx_outline c e (seen c e rest) p"
  shows "rx_outline c e (seen c e rest) (act f p)"
  using assms(1) by (intro seen_act [OF kept_assertions(1) _ assms(2)]) (simp add: seen_def)

lemma outline_choice:
  "rx_outline c e (seen c e rest) p \<Longrightarrow> rx_outline c e (seen c e rest) q \<Longrightarrow> rx_outline c e (seen c e rest) (ask b p q)"
  by (rule seen_ask [OF kept_assertions(1)])

lemma outlook_calls [simp]:
  "outlook_of c e (on_io (emit (K_timer_start Reset_timer d n)) s) = outlook_of c e s"
  "outlook_of c e (on_io (emit (K_timer_start Routine_nrc78_timer d n)) s) = outlook_of c e s"
  "outlook_of c e (on_io (emit (K_timer_start Clear_nrc78_timer d n)) s) = outlook_of c e s"
  "outlook_of c e (on_io (emit (K_work_submit w)) s) = outlook_of c e s"
  "outlook_of c e (on_io (\<lambda>i. send_tx Uds_send_response n (g i)) s) = outlook_of c e (on_io g s)"
  "outlook_of c e (on_io (\<lambda>i. tx_put k bs (g i)) s) = outlook_of c e (on_io g s)"
  "outlook_of c e (on_io (tx_put k bs) s) = outlook_of c e s" "outlook_of c e (on_io (\<lambda>i. i) s) = outlook_of c e s"
  "outlook_of c e (on_io (emit (App_routine_request_results x)) s) = outlook_of c e s"
  "outlook_of c e (on_io (emit (K_work_is_pending w)) s) = outlook_of c e s"
  "outlook_of c e (on_io (emit (K_msleep n)) s) = outlook_of c e s"
  "outlook_of c e (on_io (uds_send_response bs n) s) = outlook_of c e s"
  "outlook_of c e (on_io (fault_if b) s) = outlook_of c e s"
  by (simp_all add: outlook_of_def)

lemma outline_reset: "rx_outline c e (seen c e rest) (reset_prog req len)"
  unfolding reset_prog_def Let_def
  by (intro outline_if outline_nrc outline_plain seen_poll) (simp_all add: seen_def)

lemma outline_routine: "rx_outline c e (seen c e rest) (routine_prog e req len)"
proof -
  have start: "rx_outline c e (seen c e rest) (start_prog sid d)" for sid d
    unfolding start_prog_def by (intro outline_plain seen_poll) (simp_all add: seen_def)
  have results: "rx_outline c e (seen c e rest) (Act (on_io (emit (App_routine_request_results d)))
      (\<lambda>s. let (ret, st, ex) = uds_app_routine_request_results (app e) (tr s) d 0 0
        in if ret \<noteq> 0 then nrc_prog sid n else act (on_io (call_send Uds_send_response (data st ex) 6)) Poll))" for d sid n data
    by (rule seen_Act [where B = "\<lambda>_. seen c e rest", OF kept_assertions(1)])
      (simp add: seen_def, simp add: case_prod_beta Let_def outline_nrc,
        intro impI seen_poll_act, simp add: seen_def)
  show ?thesis
    unfolding routine_prog_def Let_def
    by (intro outline_if seen_poll outline_nrc start results [unfolded Let_def] outline_choice)
qed

lemma outline_clear: "rx_outline c e (seen c e rest) (clear_prog e req len)"
  unfolding clear_prog_def Let_def
  by (intro outline_if outline_nrc seen_Act [where B = "\<lambda>_. seen c e rest", OF kept_assertions(1)] outline_plain seen_poll)
    (simp_all add: seen_def)

lemma outlook_periodic [simp]:
  "outlook_of c e (set_periodic f s) = (outlook_of c e s)\<lparr>o_count := unat (active_did_count (f (periodic_st s)))\<rparr>"
  by (simp add: outlook_of_def)

lemma buffers_periodic [simp]:
  "buffers_ok c s \<Longrightarrow> buffers_ok c (set_periodic f s) = periodic_inv (f (periodic_st s))"
  by (simp add: buffers_ok_def)

lemma leaves_periodic [simp]:
  "leaves_round s (set_periodic f s) \<longleftrightarrow>
     (periodic_send_cb (periodic_st s) \<noteq> None \<longrightarrow> periodic_send_cb (f (periodic_st s)) \<noteq> None) \<and>
     data_len (f (periodic_st s)) = data_len (periodic_st s)"
  by (simp add: leaves_round_def)

lemma seen_periodic: "seen c e P s \<Longrightarrow> periodic_inv (periodic_st s)"
  by (simp add: seen_def buffers_ok_def)

lemma outline_periodic_request: "rx_outline c e (seen c e rest) (periodic_request_prog req len)"
proof -
  have send: "rx_outline c e (seen c e rest) (act (on_io (call_send Uds_send_response d n)) Poll)" for d n
    by (rule seen_poll_act) (simp add: seen_def outlook_of_def)
  have stop: "rx_outline c e (seen c e rest) (act (set_periodic (\<lambda>ps. ps\<lparr>active_did_count := 0\<rparr>))
      (act (on_io (call_send Uds_send_response d n)) Poll))" for d n
  proof (rule seen_act [OF kept_assertions(1) _ send])
    show "seen c e rest (set_periodic (\<lambda>ps. ps\<lparr>active_did_count := 0\<rparr>) s) \<and> leaves_round s (set_periodic (\<lambda>ps. ps\<lparr>active_did_count := 0\<rparr>) s)"
      if "seen c e rest s" for s
      using that seen_periodic [OF that] by (simp add: seen_def periodic_inv_def, simp add: assertion_defs)
  qed
  let ?store = "set_periodic (\<lambda>ps. ps\<lparr>active_periodic_dids := (active_periodic_dids ps)[unat (active_did_count ps) := req ! 2]\<rparr>)"
  let ?count = "set_periodic (\<lambda>ps. ps\<lparr>active_did_count := active_did_count ps + 1\<rparr>)"
  have count: "seen c e rest (?count s) \<and> leaves_round s (?count s)" if s: "seen c e (\<lambda>m v. rest m v \<and> o_count v < 5) s" for s
  proof -
    have "unat (active_did_count (periodic_st s)) < 5" using s by (simp add: seen_def outlook_sel)
    moreover from this have "unat (active_did_count (periodic_st s) + 1) = Suc (unat (active_did_count (periodic_st s)))"
      by (intro unat_counter_Suc) simp
    ultimately show ?thesis
      using s seen_periodic [OF s] by (simp add: seen_def periodic_inv_def, simp add: assertion_defs)
  qed
  have store: "seen c e (\<lambda>m v. rest m v \<and> o_count v < 5) (?store s) \<and> leaves_round s (?store s)"
    if s: "seen c e (\<lambda>m v. rest m v \<and> o_count v < 5) s" for s
    using s seen_periodic [OF s] by (simp add: seen_def periodic_inv_def outlook_sel, simp add: assertion_defs outlook_sel)
  have room: "seen c e rest s \<Longrightarrow> \<not> active_did_count (periodic_st s) \<ge> 5 \<Longrightarrow> seen c e (\<lambda>m v. rest m v \<and> o_count v < 5) s" for s
    by (simp add: seen_def outlook_sel word_le_nat_alt)
  note start = seen_act [OF kept_assertions(15) store seen_act [OF kept_assertions(15) count send]]
  have body: "rx_outline c e (seen c e rest) (ask (\<lambda>s. active_did_count (periodic_st s) \<ge> 5) (nrc_prog sid nrc)
      (act ?store (act ?count (act (on_io (call_send Uds_send_response d n)) Poll))))" for sid nrc d n
    by (rule seen_ask [OF kept_assertions(1) _ outline_nrc room start])
  show ?thesis
    unfolding periodic_request_prog_def Let_def
  proof (rule seen_act [where Q = rest], rule kept_assertions)
    show "seen c e rest (set_periodic (\<lambda>ps. ps\<lparr>periodic_send_cb := Some Uds_send_response\<rparr>) s) \<and>
        leaves_round s (set_periodic (\<lambda>ps. ps\<lparr>periodic_send_cb := Some Uds_send_response\<rparr>) s)"
      if "seen c e rest s" for s
      using that seen_periodic [OF that] by (simp add: seen_def periodic_inv_def, simp add: assertion_defs outlook_sel)
  qed (intro outline_if outline_nrc stop body seen_poll)
qed

subsection \<open>A whole request\<close>

lemma seen_dispatch:
  assumes "seen c e rest s" "req ! 0 \<notin> {0x10, 0x2A, 0x2E, 0x31}" "a = UDS_ADDR_PHYSICAL \<Longrightarrow> req ! 0 \<notin> {0x27, 0x2F, 0x34}"
  shows "seen c e rest (uds_dispatch c e req len a s)"
proof (cases "a = UDS_ADDR_FUNCTIONAL \<and> req ! 0 \<in> {0x27, 0x2F, 0x34, 0x36, 0x37}")
  case True
  then have "uds_dispatch c e req len a s = on_io (uds_send_nrc (req ! 0) UDS_NRC_CONDITIONS_NOT_CORRECT) s"
    by (auto simp: uds_dispatch_def Let_def)
  then show ?thesis using assms(1) by (simp add: seen_def outlook_of_def)
next
  case False
  have sid: "req ! 0 \<noteq> 0x10" "req ! 0 \<noteq> 0x27" "req ! 0 \<noteq> 0x2E" "req ! 0 \<noteq> 0x2F" "req ! 0 \<noteq> 0x34"
    using False assms(2,3) by (cases a; auto)+
  note served = dispatch_served [OF seen_buffer [OF assms(1)], of req c e len a]
  show ?thesis
  proof (rule seen_served [OF assms(1) served sid(1,2)])
    assume g: "guard_inv (key_proved e) e (flash_st s) (tr s)"
    show "guard_inv (key_proved e) e (flash_st (uds_dispatch c e req len a s)) (tr (uds_dispatch c e req len a s))"
    proof (cases "req ! 0 \<in> {0x36, 0x37}")
      case True
      then have "a = UDS_ADDR_PHYSICAL" using False by (cases a) auto
      then show ?thesis using True guarded_transfer [OF g] by (auto simp: uds_dispatch_def Let_def)
    next
      case other: False
      then show ?thesis
        using g sid served_ignores [OF served, of "guarded_by (key_proved e) e"]
          served_ignores [OF served, of "erase_accepted e"]
        by (simp add: guard_inv_def dispatch_flash)
    qed
  qed (use sid in \<open>simp_all add: dispatch_session dispatch_security valid_session_request_def dispatch_periodic periodic_inv_handle\<close>)
qed

lemma leaves_round_dispatch: "req ! 0 \<noteq> 0x2A \<Longrightarrow> leaves_round s (uds_dispatch c e req len a s)"
  by (simp add: leaves_round_def dispatch_periodic)

lemma outline_service:
  "rx_outline c e (seen c e rest) (service_prog c e req len a)"
  by (simp add: service_prog_def Let_def outline_session outline_security outline_write_did outline_io_control
      outline_download outline_reset outline_clear outline_routine outline_periodic_request seen_poll_act seen_dispatch leaves_round_dispatch)

lemma outline_request:
  "rx_outline c e (seen c e rest) (request_prog c e req len a)"
proof -
  have "rx_outline c e (seen c e rest)
      (refresh_prog c (service_prog c e req len a))"
    by (rule seen_weaken [OF outline_refresh [OF outline_service] kept_assertions(1)]) (simp add: rest_def)
  then have "rx_outline c e (seen c e rest)
      (act (on_io (\<lambda>i. i\<lparr>current_msg_addressing := a\<rparr>)) (refresh_prog c (service_prog c e req len a)))"
    by (intro seen_act [OF kept_assertions(1), where Q = rest]) (simp_all add: seen_def outlook_of_def)
  then show ?thesis unfolding request_prog_def by (intro outline_if seen_poll)
qed

lemma outline_bind:
  "rx_outline c e (seen c e deaf) (bind_prog c e)"
proof -
  have halted: "rx_outline c e (seen c e deaf) Halted"
    by (rule outline.halted) (auto intro: kept_stable kept_good kept_assertions)
  have func: "rx_outline c e (seen c e (\<lambda>m v. deaf m v \<and> o_rx v))
      (Act (on_io (emit (Isotp_bind Func_rx_link (func_rx_link c) (tx_link c) fc_opts)))
            (\<lambda>s. if isotp_bind e (tr s) Func_rx_link \<noteq> 0 then Halted else Poll))"
    by (rule seen_Act [where B = "\<lambda>s. if isotp_bind e (tr s) Func_rx_link \<noteq> 0 then seen c e deaf else seen c e rest"],
        rule kept_assertions)
      (simp add: seen_def, simp add: outlook_of_def assertion_defs, simp add: halted seen_poll)
  show ?thesis
    unfolding bind_prog_def
    by (rule seen_Act [where B = "\<lambda>s. if isotp_bind e (tr s) Rx_link \<noteq> 0 then seen c e deaf else seen c e (\<lambda>m v. deaf m v \<and> o_rx v)"],
        rule kept_assertions)
      (simp add: seen_def, simp add: outlook_of_def assertion_defs, simp add: halted func)
qed

section \<open>The outlines of the periodic thread\<close>

text \<open>
  It relies on the sizes of the buffers, on its callback and on its length variable, and guarantees what the receive thread relies on
  and, as long as the application keeps to its buffer, that it does not reach outside an array.
\<close>

definition round_relies :: "kconfig \<Rightarrow> system \<Rightarrow> system \<Rightarrow> bool" where
  "round_relies c s t \<longleftrightarrow> (buffers_ok c s \<longrightarrow> buffers_ok c t) \<and> leaves_round s t"

definition round_gives :: "kconfig \<Rightarrow> env \<Rightarrow> system \<Rightarrow> system \<Rightarrow> bool" where
  "round_gives c e s t \<longleftrightarrow>
     (buffers_ok c s \<longrightarrow> buffers_ok c t \<and> outlook_of c e t = outlook_of c e s) \<and>
     (hooks_bounded (app e) \<longrightarrow> mem_fault (io_st t) \<longrightarrow> mem_fault (io_st s))"

definition sampling :: "kconfig \<Rightarrow> system \<Rightarrow> bool" where
  "sampling c s \<longleftrightarrow> buffers_ok c s \<and> periodic_send_cb (periodic_st s) \<noteq> None"

definition loaded :: "kconfig \<Rightarrow> env \<Rightarrow> system \<Rightarrow> bool" where
  "loaded c e s \<longleftrightarrow> sampling c s \<and> (hooks_bounded (app e) \<longrightarrow> data_len (periodic_st s) \<le> 14)"

abbreviation round_outline :: "kconfig \<Rightarrow> env \<Rightarrow> (system \<Rightarrow> bool) \<Rightarrow> system prog \<Rightarrow> bool" where
  "round_outline c e \<equiv> outline (round_relies c) (round_gives c e) (buffers_ok c) (buffers_ok c)"

lemma round_stable:
  "stable (round_relies c) (buffers_ok c)" "stable (round_relies c) (sampling c)"
  "stable (round_relies c) (\<lambda>s. sampling c s \<and> b)" "stable (round_relies c) (loaded c e)"
  unfolding stable_def round_relies_def leaves_round_def sampling_def loaded_def by auto

lemma round_gives_refl [simp]: "round_gives c e s s"
  by (simp add: round_gives_def)

lemma hook_call_sel [simp]:
  "outlook_of c e (hook_call e k s) = outlook_of c e s"
  "periodic_send_cb (periodic_st (hook_call e k s)) = periodic_send_cb (periodic_st s)"
  "data_len (periodic_st (hook_call e k s)) = snd (snd (uds_app_get_periodic_did (app e) (tr s)
     (active_periodic_dids (periodic_st s) ! k) (data_len (periodic_st s))))"
  "buffers_ok c (hook_call e k s) = buffers_ok c s"
  by (simp_all add: hook_call_def Let_def case_prod_beta outlook_of_def buffers_ok_def periodic_inv_def)

lemma outline_sample:
  assumes p: "round_outline c e (sampling c) p"
  shows "round_outline c e (\<lambda>s. sampling c s \<and> k < 5) (sample_prog e k p)"
proof -
  let ?ret = "\<lambda>s. fst (uds_app_get_periodic_did (app e) (tr s) (active_periodic_dids (periodic_st s) ! k)
    (data_len (periodic_st s)))"
  have send: "round_outline c e (loaded c e) (act send_sample p)"
  proof (rule outline_act [OF round_stable(4) _ _ p])
    fix s assume s: "loaded c e s"
    then obtain cb where "periodic_send_cb (periodic_st s) = Some cb" by (auto simp: loaded_def sampling_def)
    then show "sampling c (send_sample s) \<and> round_gives c e s (send_sample s)"
      using s by (cases cb) (auto simp: send_sample_def round_gives_def loaded_def sampling_def buffers_ok_def periodic_inv_def)
  qed (simp add: loaded_def sampling_def)
  have hook: "round_outline c e (\<lambda>s. sampling c s \<and> k < 5) (Act (hook_call e k) (\<lambda>s. if ?ret s = 0 then act send_sample p else p))"
  proof (rule outline.act [OF round_stable(3), where B = "\<lambda>s. if ?ret s = 0 then loaded c e else sampling c"])
    fix s assume s: "sampling c s \<and> k < 5"
    then have "length (periodic_tx_buf (periodic_st s)) = 16" "length (active_periodic_dids (periodic_st s)) = 5"
      by (simp_all add: sampling_def buffers_ok_def periodic_inv_def)
    then have "hooks_bounded (app e) \<Longrightarrow> mem_fault (io_st (hook_call e k s)) \<Longrightarrow> mem_fault (io_st s)"
      using s hooks_boundedD(5) [of "app e" "tr s" "active_periodic_dids (periodic_st s) ! k" "data_len (periodic_st s)"]
      by (auto simp: hook_call_def Let_def case_prod_beta)
    then show "(if ?ret s = 0 then loaded c e else sampling c) (hook_call e k s) \<and> round_gives c e s (hook_call e k s)"
      using s hooks_boundedD(6) [of "app e" "tr s" "active_periodic_dids (periodic_st s) ! k" "data_len (periodic_st s)"]
      by (simp add: loaded_def sampling_def round_gives_def)
  qed (simp_all add: sampling_def send p)
  let ?label = "\<lambda>s. on_io (fault_if (length (active_periodic_dids (periodic_st s)) \<le> k))
    (set_periodic (\<lambda>ps. ps\<lparr>periodic_tx_buf := buf_put 1 [active_periodic_dids ps ! k] (periodic_tx_buf ps)\<rparr>) s)"
  have label: "sampling c (?label s) \<and> round_gives c e s (?label s)" if "sampling c s \<and> k < 5" for s
    using that by (auto simp: sampling_def round_gives_def buffers_ok_def periodic_inv_def outlook_of_def)
  have head: "sampling c (set_periodic (\<lambda>ps. ps\<lparr>periodic_tx_buf := buf_put 0 [x] (periodic_tx_buf ps)\<rparr>) s) \<and>
      round_gives c e s (set_periodic (\<lambda>ps. ps\<lparr>periodic_tx_buf := buf_put 0 [x] (periodic_tx_buf ps)\<rparr>) s)" if "sampling c s" for s x
    using that by (auto simp: sampling_def round_gives_def buffers_ok_def periodic_inv_def outlook_of_def)
  have "round_outline c e (\<lambda>s. sampling c s \<and> k < 5) (act ?label (Act (hook_call e k) (\<lambda>s. if ?ret s = 0 then act send_sample p else p)))"
    using label by (intro outline_act [OF round_stable(3) _ _ hook]) (simp_all add: sampling_def)
  then show ?thesis
    unfolding sample_prog_def using head by (intro outline_act [OF round_stable(3)]) (simp_all add: sampling_def)
qed

lemma outline_loop: "round_outline c e (sampling c) (loop_prog e ks)"
proof (induction ks)
  case Nil
  show ?case by (simp, rule outline.poll) (simp add: sampling_def)
next
  case (Cons k ks)
  have "round_outline c e (sampling c) Poll" by (rule outline.poll) (simp add: sampling_def)
  moreover have "sampling c s \<Longrightarrow> k < unat (active_did_count (periodic_st s)) \<Longrightarrow> sampling c s \<and> k < 5" for s
    by (auto simp: sampling_def buffers_ok_def periodic_inv_def)
  ultimately show ?case
    unfolding loop_prog.simps
    by (intro outline_ask [OF round_stable(2) _ _ _ outline_sample [OF Cons]]) (auto simp: sampling_def)
qed

lemma outline_round: "round_outline c e (buffers_ok c) (round_prog e)"
proof -
  have "round_outline c e (buffers_ok c) Poll" by (rule outline.poll)
  then have "round_outline c e (buffers_ok c)
      (ask (\<lambda>s. active_did_count (periodic_st s) = 0 \<or> periodic_send_cb (periodic_st s) = None) Poll (loop_prog e [0..<256]))"
    by (intro outline_ask [OF round_stable(1) _ _ _ _ _ outline_loop]) (auto simp: sampling_def)
  then show ?thesis
    unfolding round_prog_def by (intro outline_act [OF round_stable(1)]) (simp_all add: round_gives_def)
qed

section \<open>Every interleaving\<close>

lemma init_event_heard: "\<forall>ev \<in> set evs. init_event c ev \<Longrightarrow> \<not> heard evs"
proof (induction evs)
  case (Cons ev evs) then show ?case by (cases ev) auto
qed simp

lemma seen_boot:
  assumes "fst (uds_init c e (system_0 c)) = 0" "kconfig_ok c" "counter_ok c (security_st (booted c e))"
  shows "seen c e deaf (booted c e)"
proof -
  have r: "reachable c e (booted c e)" using assms(1) by (rule reachable.boot)
  have "timer_mode S3_timer (tr (booted c e)) = None"
    using boot_timer_other [OF boot_trace [OF assms(1)], of S3_timer] by simp
  moreover have "security_status (security_st (booted c e)) \<noteq> UDS_SEC_UNLOCKED"
    using security_init_timer [of "security_state_0 c" c e "io_boot c"]
    by (auto simp: booted_sel [OF assms(1)] security_state_0_def)
  moreover have "\<not> streaming (flash_st (booted c e))"
    by (simp add: booted_sel [OF assms(1)] flash_state_0_def streaming_def)
  ultimately show ?thesis
    using assms(2,3) reachable_buffers [OF r assms(2)] reachable_lockout [OF r assms(2)]
      init_event_scan [OF boot_trace [OF assms(1)], of e] init_event_heard [OF boot_trace [OF assms(1)]] init_event_guarded [OF boot_trace [OF assms(1)], of "key_proved e" e]
    by (auto simp: seen_def outlook_of_def assertion_defs lockout_ok_def counter_ok_def
        booted_sel [OF assms(1)] session_state_0_def)
qed

lemma seen_polled: "length buf = length (uds_rx_buf s) \<Longrightarrow> seen c e rest s \<Longrightarrow> seen c e rest (polled l buf s)"
  by (simp add: seen_def buffers_ok_def) (simp add: outlook_of_def assertion_defs)

lemma polled_relies: "length buf = length (uds_rx_buf s) \<Longrightarrow> round_relies c s (polled l buf s)"
  by (simp add: round_relies_def buffers_ok_def leaves_round_def)

lemma background_relies: "background e s t \<Longrightarrow> aside c e s t \<and> round_relies c s t"
  by (simp add: aside_def round_relies_def background_buffers background_periodic leaves_round_def)

interpretation th: outlined_module "aside c e" leaves_round "round_relies c" "round_gives c e"
    "seen c e good" "seen c e rest" "buffers_ok c" "buffers_ok c" c e for c e
proof
  show "stable (aside c e) (seen c e rest)" by (intro kept_stable kept_assertions)
  show "seen c e rest s \<Longrightarrow> seen c e good s" for s by (rule kept_good [OF kept_assertions(1)])
  show "leaves_round s t \<Longrightarrow> seen c e good s \<Longrightarrow> seen c e good t \<Longrightarrow> round_relies c s t" for s t
    by (simp add: round_relies_def seen_def)
  show "round_gives c e s t \<Longrightarrow> buffers_ok c s \<Longrightarrow> buffers_ok c t \<Longrightarrow> aside c e s t" for s t
    by (simp add: round_gives_def aside_def)
qed (auto intro: round_stable background_relies [THEN conjunct1] background_relies [THEN conjunct2] seen_polled polled_relies outline_request outline_round)

lemma threads_held:
  assumes "threads_reach c e s p q" "kconfig_ok c" "counter_ok c (security_st (booted c e))"
  shows "th.both_held c e s p q"
proof (rule th.reach_held [OF assms(1)])
  have "fst (uds_init c e (system_0 c)) = 0" using assms(1) by induction
  from seen_boot [OF this assms(2,3)] show "th.first.held c e (booted c e) (bind_prog c e)" "buffers_ok c (booted c e)"
    by (auto intro: th.first.heldI [OF outline_bind] simp: seen_def)
qed

end
