(* ===== verification/Uds_Background.thy ===== *)
theory Uds_Background
  imports Uds_Access
begin

text \<open>
  The jobs that run beside the receive thread: routines and clear requests in the work queue with their
  ResponsePending timers, and the delayed reset. Each job ends with exactly one final frame, says
  ResponsePending only while its result is awaited, and a reboot is always announced.
\<close>

section \<open>Jobs in the trace\<close>

fun submits :: "work \<Rightarrow> trace \<Rightarrow> nat" where
  "submits w [] = 0"
| "submits w (K_work_submit w' # evs) = (if w' = w then 1 else 0) + submits w evs"
| "submits w (_ # evs) = submits w evs"

text \<open>The frame that ends a job: the routine result, or the confirmation of a clear request.\<close>

fun final_frame :: "work \<Rightarrow> u8 list \<Rightarrow> bool" where
  "final_frame Routine_work f \<longleftrightarrow> length f = 5 \<and> hd f = 0x71"
| "final_frame Clear_dtc_work f \<longleftrightarrow> f = [0x54]"

fun finals :: "work \<Rightarrow> trace \<Rightarrow> nat" where
  "finals w [] = 0"
| "finals w (Isotp_send f # evs) = (if final_frame w f then 1 else 0) + finals w evs"
| "finals w (_ # evs) = finals w evs"

definition pending_frame :: "work \<Rightarrow> u8 list" where
  "pending_frame w = [0x7F, work_service w, UDS_NRC_RESPONSE_PENDING]"

text \<open>The result of a job is awaited from its submission until the final frame, which frees the module for the next.\<close>

fun awaited :: "work \<Rightarrow> trace \<Rightarrow> bool" where
  "awaited w [] \<longleftrightarrow> False"
| "awaited w (K_work_submit w' # evs) \<longleftrightarrow> w' = w \<or> awaited w evs"
| "awaited w (Isotp_send f # evs) \<longleftrightarrow> \<not> final_frame w f \<and> awaited w evs"
| "awaited w (_ # evs) \<longleftrightarrow> awaited w evs"

text \<open>ResponsePending is only said while the result is awaited.\<close>

fun pending_honest :: "work \<Rightarrow> trace \<Rightarrow> bool" where
  "pending_honest w [] \<longleftrightarrow> True"
| "pending_honest w (Isotp_send f # evs) \<longleftrightarrow> (f = pending_frame w \<longrightarrow> awaited w evs) \<and> pending_honest w evs"
| "pending_honest w (_ # evs) \<longleftrightarrow> pending_honest w evs"

definition job_trace :: "work \<Rightarrow> trace \<Rightarrow> bool" where
  "job_trace w evs \<longleftrightarrow>
     submits w evs = finals w evs + (if awaited w evs then 1 else 0) \<and> pending_honest w evs"

lemma sid_job: "sid + 0x40 = 0x71 \<longleftrightarrow> sid = 0x31" "sid + 0x40 = 0x54 \<longleftrightarrow> sid = 0x14" 
  "sid + 0x40 = 0x7F \<longleftrightarrow> sid = 0x3F" for sid :: u8
  using add_right_cancel [of sid "0x40" "0x31"] add_right_cancel [of sid "0x40" "0x14"]
    add_right_cancel [of sid "0x40" "0x3F"] by simp_all

lemma not_final:
  "sid \<noteq> work_service w \<Longrightarrow> service_event sid (Isotp_send f) \<Longrightarrow> \<not> final_frame w f"
  "sid \<noteq> work_service w \<Longrightarrow> service_event sid (Isotp_send f) \<Longrightarrow> f \<noteq> pending_frame w \<or> sid = 0x3F"
  by (cases w; auto simp: service_event_def sid_job pending_frame_def)+


lemma job_trace_other:
  "job_trace w evs \<Longrightarrow> sid \<noteq> work_service w \<Longrightarrow> sid \<noteq> 0x3F \<Longrightarrow> service_event sid ev \<Longrightarrow>
     job_trace w (ev # evs)"
proof (cases ev)
  case (Isotp_send f)
  assume *: "job_trace w evs" "sid \<noteq> work_service w" "sid \<noteq> 0x3F" "service_event sid ev"
  have "\<not> final_frame w f" "f \<noteq> pending_frame w"
    using not_final [OF *(2) *(4) [unfolded Isotp_send]] *(3) by simp_all
  then show ?thesis using *(1) by (simp add: Isotp_send job_trace_def)
next
  case (K_work_submit w')
  then show "job_trace w evs \<Longrightarrow> sid \<noteq> work_service w \<Longrightarrow> service_event sid ev \<Longrightarrow> ?thesis"
    by (cases w; cases w') (simp_all add: job_trace_def service_event_def)
qed (simp_all add: job_trace_def service_event_def)

lemma job_trace_periodic: "job_trace w evs \<Longrightarrow> periodic_event ev \<Longrightarrow> job_trace w (ev # evs)"
proof (cases ev)
  case (Isotp_send f)
  then show "job_trace w evs \<Longrightarrow> periodic_event ev \<Longrightarrow> ?thesis"
    by (cases w) (auto simp: job_trace_def pending_frame_def)
qed (simp_all add: job_trace_def)

lemma closed_append:
  assumes "\<And>ev evs. Q evs \<Longrightarrow> P ev \<Longrightarrow> Q (ev # evs)" "Q evs0" "\<forall>ev \<in> set evs. P ev"
  shows "Q (evs @ evs0)"
  using assms(3) by (induction evs) (simp_all add: assms(1,2))

lemma job_trace_nrc:
  "job_trace w evs \<Longrightarrow> nrc \<noteq> UDS_NRC_RESPONSE_PENDING \<or> sid \<noteq> work_service w \<Longrightarrow>
     job_trace w (nrc_trace sid nrc a @ evs)"
  by (cases w) (auto simp: job_trace_def nrc_trace_def pending_frame_def)

lemma job_trace_s3_event: "job_trace w (s3_event c ses # evs) = job_trace w evs" "awaited w (s3_event c ses # evs) = awaited w evs"
  by (simp_all add: job_trace_def s3_event_def)

lemma awaited_nrc [simp]: "awaited w (nrc_trace sid nrc a @ evs) = awaited w evs"
  by (cases w) (simp_all add: nrc_trace_def)

lemma ignores_awaited [simp]:
  "ignores (awaited w) periodic_event"
  "sid \<noteq> work_service w \<Longrightarrow> ignores (awaited w) (service_event sid)"
proof -
  have "awaited w (ev # evs) = awaited w evs" if "periodic_event ev" for ev evs
    using that by (cases ev; cases w) auto
  then show "ignores (awaited w) periodic_event" by (simp add: ignores_def)
next
  assume sid: "sid \<noteq> work_service w"
  have "awaited w (ev # evs) = awaited w evs" if ev: "service_event sid ev" for ev evs
  proof (cases ev)
    case (Isotp_send f)
    then show ?thesis using not_final(1) [OF sid ev [unfolded Isotp_send]] by simp
  qed (use ev sid in \<open>auto simp: service_event_def\<close>)
  then show "ignores (awaited w) (service_event sid)" by (simp add: ignores_def)
qed

lemma dispatch_events:
  assumes "uds_tx_buf (io_st s) \<noteq> []"
  obtains evs where "trace (io_st (uds_dispatch c e req len a s)) = evs @ trace (io_st s)"
    and "\<forall>ev \<in> set evs. service_event (req ! 0) ev"
proof -
  obtain evs where evs: "trace (io_st (uds_dispatch c e req len a s)) = evs @ trace (io_st s)"
    "\<forall>ev \<in> set evs. is_send ev \<or> may_call (req ! 0) ev"
    "\<forall>f \<in> set (frames evs). is_answer (req ! 0) (current_msg_addressing (io_st s)) f"
    by (rule dispatch_trace [OF assms])
  have "service_event (req ! 0) ev" if "ev \<in> set evs" for ev
  proof (cases ev)
    case (Isotp_send f)
    then have "is_answer (req ! 0) (current_msg_addressing (io_st s)) f"
      using evs(3) that by simp
    then show ?thesis
      using Isotp_send by (cases f) (auto simp: service_event_def is_answer_def)
  qed (use evs(2) that in \<open>auto simp: service_event_def\<close>)
  then show ?thesis using evs(1) that by blast
qed

lemma job_trace_dispatch:
  assumes "job_trace w (tr s)" "uds_tx_buf (io_st s) \<noteq> []" "req ! 0 \<noteq> work_service w"
  shows "job_trace w (tr (uds_dispatch c e req len a (accepted c a s)))"
proof (cases "req ! 0 = 0x3F")
  case True
  have "uds_dispatch c e req len a (accepted c a s)
      = on_io (uds_send_nrc 0x3F UDS_NRC_SERVICE_NOT_SUPPORTED) (accepted c a s)"
    using True by (simp add: uds_dispatch_def Let_def)
  then show ?thesis using assms(1) by (simp add: job_trace_nrc job_trace_s3_event)
next
  case False
  have buf: "uds_tx_buf (io_st (accepted c a s)) \<noteq> []" using assms(2) by simp
  obtain evs where evs: "tr (uds_dispatch c e req len a (accepted c a s)) = evs @ trace (io_st (accepted c a s))"
    "\<forall>ev \<in> set evs. service_event (req ! 0) ev"
    by (rule dispatch_events [OF buf])
  have "job_trace w (evs @ trace (io_st (accepted c a s)))"
  proof (rule closed_append [where P = "service_event (req ! 0)" and Q = "job_trace w"])
    show "job_trace w (trace (io_st (accepted c a s)))"
      using assms(1) by (simp add: job_trace_s3_event)
  qed (use evs(2) job_trace_other [OF _ assms(3) False] in blast)+
  then show ?thesis by (simp add: evs(1))
qed

lemma job_trace_round:
  assumes "job_trace w (tr s)" "periodic_inv (periodic_st s)"
  shows "job_trace w (trace (snd (uds_periodic_thread_round e (periodic_st s, io_st s))))"
proof -
  obtain evs where evs: "tr (on_periodic (uds_periodic_thread_round e) s) = evs @ tr s"
    "\<forall>ev \<in> set evs. periodic_event ev" by (rule round_trace [OF assms(2)])
  have "job_trace w (evs @ tr s)"
    by (rule closed_append [where P = periodic_event and Q = "job_trace w"])
      (use assms(1) evs(2) job_trace_periodic in blast)+
  then show ?thesis using evs(1) by simp
qed

text \<open>
  A job whose result is awaited waits in the queue, or its handler runs and has not sent it yet, never both: no
  submission is lost and none runs twice.
\<close>

definition job_held :: "work \<Rightarrow> wq_phase \<Rightarrow> trace \<Rightarrow> bool" where
  "job_held w q evs \<longleftrightarrow>
     (awaited w evs \<longleftrightarrow> queued w evs \<or> serving q = Some w) \<and> \<not> (queued w evs \<and> serving q = Some w)"

section \<open>The routine\<close>

definition routine_inv :: "routine_state \<Rightarrow> wq_phase \<Rightarrow> trace \<Rightarrow> bool" where
  "routine_inv rs q evs \<longleftrightarrow>
     (erase_routine_status rs = ROUTINE_RUNNING \<longleftrightarrow> awaited Routine_work evs) \<and>
     timer_mode Routine_nrc78_timer evs = (if awaited Routine_work evs then Some 20 else None) \<and>
     stored_routine_sid rs = 0x31 \<and>
     (awaited Routine_work evs \<longrightarrow> stored_routine_send_cb rs \<noteq> None) \<and>
     job_held Routine_work q evs \<and> job_trace Routine_work evs"

lemma routine_inv_ignores:
  assumes "routine_inv rs q evs" "awaited Routine_work evs' = awaited Routine_work evs"
    "queued Routine_work evs' = queued Routine_work evs" "timer_mode Routine_nrc78_timer evs' = timer_mode Routine_nrc78_timer evs" "job_trace Routine_work evs'"
  shows "routine_inv rs q evs'"
  using assms by (simp add: routine_inv_def job_held_def)

lemma routine_handle_inv:
  assumes "routine_inv rs q (trace i)" "req ! 0 = 0x31"
  shows "routine_inv (fst (uds_routine_handle_control e ses send nrc req len (rs, i))) q
    (trace (snd (uds_routine_handle_control e ses send nrc req len (rs, i))))"
proof -
  have n: "routine_inv rs q (nrc_trace 0x31 k a @ trace i)" if "k \<noteq> UDS_NRC_RESPONSE_PENDING" for k a
    using that assms(1) by (intro routine_inv_ignores [OF assms(1)]) (simp_all add: job_trace_nrc routine_inv_def)
  have n': "routine_inv rs q (nrc_trace 0x31 k a @ App_routine_request_results d # trace i)"
    if "k \<noteq> UDS_NRC_RESPONSE_PENDING" for k a d
    using that assms(1) by (intro routine_inv_ignores [OF assms(1)]) (simp_all add: job_trace_nrc routine_inv_def job_trace_def nrc_trace_def pending_frame_def)
  show ?thesis
    using assms n n'
    by (simp add: uds_routine_handle_control_def Let_def case_prod_beta,
        auto simp: routine_inv_def job_held_def job_trace_def pending_frame_def)
qed

lemma dispatch_0x31:
  "req ! 0 = 0x31 \<Longrightarrow> uds_dispatch c e req len a s =
     on_routine (uds_routine_handle_control e (session_st s) Uds_send_response Uds_send_nrc req len) s"
  by (simp add: uds_dispatch_def Let_def)

lemma dispatch_0x14:
  "req ! 0 = 0x14 \<Longrightarrow> uds_dispatch c e req len a s =
     on_clear (uds_clear_dtc_handle e Uds_send_response Uds_send_nrc req len) s"
  by (simp add: uds_dispatch_def Let_def)

lemma routine_inv_dispatch:
  assumes "routine_inv (routine_st s) (wq s) (tr s)" "uds_tx_buf (io_st s) \<noteq> []"
  shows "routine_inv (routine_st (uds_dispatch c e req len a (accepted c a s)))
    (wq (uds_dispatch c e req len a (accepted c a s))) (tr (uds_dispatch c e req len a (accepted c a s)))"
proof (cases "req ! 0 = 0x31")
  case True
  have "routine_inv (routine_st s) (wq s) (trace (io_st (accepted c a s)))"
    using assms(1) by (intro routine_inv_ignores [OF assms(1)])
      (simp_all add: timer_mode_s3_event job_trace_s3_event, simp add: routine_inv_def)
  from routine_handle_inv [OF this True] True show ?thesis by (simp add: dispatch_0x31)
next
  case False
  have buf: "uds_tx_buf (io_st (accepted c a s)) \<noteq> []" using assms(2) by simp
  show ?thesis
    using assms False ignores_dispatch [OF ignores_timer(2) buf, of req Routine_nrc78_timer]
      ignores_dispatch [OF ignores_awaited(2) buf, of req Routine_work] ignores_dispatch [OF ignores_work(4) buf, of req Routine_work]
      job_trace_dispatch [of Routine_work s req]
    by (simp add: dispatch_routine routine_inv_def job_held_def timer_mode_s3_event job_trace_s3_event)
qed

lemma reachable_clear_sid:
  assumes "reachable c e s"
  shows "stored_sid (clear_st s) = 0x14"
  using assms
proof (induction rule: reachable_invariant)
  case boot
  then show ?case by (simp add: booted_sel clear_state_0_def)
next
  case (request s a buf len)
  then show ?case by (simp add: dispatch_clear uds_clear_dtc_handle_def Let_def)
qed simp_all

lemma boot_job: "\<forall>ev \<in> set evs. init_event c ev \<Longrightarrow> job_trace w evs \<and> \<not> awaited w evs"
proof (induction evs)
  case (Cons ev evs)
  then show ?case by (cases ev) (auto simp: job_trace_def)
qed (simp add: job_trace_def)

lemma reachable_routine:
  assumes "reachable c e s" "kconfig_ok c"
  shows "routine_inv (routine_st s) (wq s) (tr s)"
  using assms(1)
proof (induction rule: reachable_invariant)
  case boot
  then show ?case
    using boot_job [OF boot_trace [OF boot], of Routine_work] boot_work [OF boot_trace [OF boot], of Routine_work]
      boot_timer_other [OF boot_trace [OF boot], of Routine_nrc78_timer]
    by (simp add: routine_inv_def job_held_def booted_sel routine_state_0_def)
next
  case (request s a buf len)
  then show ?case using reachable_tx_buf [OF request(1) assms(2)] by (intro routine_inv_dispatch)
next
  case (periodic s)
  have p: "periodic_inv (periodic_st s)" by (rule reachable_tx_buf [OF periodic(1) assms(2)])
  with periodic(2) job_trace_round [of Routine_work s e] show ?case
    by (simp add: routine_inv_def job_held_def ignores_round [where F = "awaited Routine_work"]
        ignores_round [where F = "queued Routine_work"] ignores_round [where F = "timer_mode Routine_nrc78_timer"])
next
  case (clear_tick s)
  then show ?case
    using reachable_clear_sid [OF clear_tick(1)]
    by (auto simp: routine_inv_def job_held_def job_trace_def pending_frame_def split: option.splits if_splits)
qed (auto simp: routine_inv_def job_held_def job_trace_def pending_frame_def timer_running_def routine_worker_finish_def
    Let_def nrc_trace_def split: option.splits if_splits prod.splits)


section \<open>Clearing trouble codes\<close>

text \<open>An item is busy exactly while it waits in the queue or its handler runs.\<close>

lemma busy_inv:
  assumes "reachable c e s" "kconfig_ok c"
  shows "work_busy w (tr s) \<longleftrightarrow> queued w (tr s) \<or> running (wq s) = Some w"
  using assms(1)
proof (induction rule: reachable_invariant)
  case boot
  then show ?case using boot_work [OF boot_trace [OF boot], of w] by (simp add: booted_sel)
next
  case (request s a buf len)
  have b: "uds_tx_buf (io_st (accepted c a s)) \<noteq> []" using reachable_tx_buf [OF request(1) assms(2)] by simp
  show ?case
  proof (cases "buf ! 0 = work_service w")
    case True
    with request show ?thesis
      by (cases w) (auto simp: dispatch_0x31 dispatch_0x14 uds_routine_handle_control_def uds_clear_dtc_handle_def
          Let_def case_prod_beta timer_mode_s3_event)
  next
    case False
    then show ?thesis
      using request ignores_dispatch [OF ignores_work(3) b, of buf w] ignores_dispatch [OF ignores_work(4) b, of buf w]
      by (simp add: timer_mode_s3_event)
  qed
next
  case (periodic s)
  have p: "periodic_inv (periodic_st s)" by (rule reachable_tx_buf [OF periodic(1) assms(2)])
  with periodic(2) show ?case
    by (simp add: ignores_round [where F = "work_busy w"] ignores_round [where F = "queued w"])
qed (cases w; auto simp: nrc_trace_def split: option.splits prod.splits)+

lemma awaited_busy:
  "reachable c e s \<Longrightarrow> kconfig_ok c \<Longrightarrow> job_held w (wq s) (tr s) \<Longrightarrow> awaited w (tr s) \<Longrightarrow> work_busy w (tr s)"
  by (auto simp: busy_inv job_held_def serving_def split: wq_phase.splits)

text \<open>
  What the kernel documents of \<open>k_work_is_pending\<close>: it is true from the submission of the item until its
  handler has returned.
\<close>

definition pending_exact :: "env \<Rightarrow> bool" where
  "pending_exact e \<longleftrightarrow> (\<forall>evs w. k_work_is_pending e evs w = work_busy w evs)"

definition clear_inv :: "clear_state \<Rightarrow> wq_phase \<Rightarrow> trace \<Rightarrow> bool" where
  "clear_inv cs q evs \<longleftrightarrow>
     timer_mode Clear_nrc78_timer evs =
       (if awaited Clear_dtc_work evs \<and> \<not> worker_done cs then Some 0 else None) \<and>
     (awaited Clear_dtc_work evs \<longrightarrow>
        stored_send_cb cs \<noteq> None \<and> stored_nrc_cb cs \<noteq> None \<and> (worker_done cs \<longleftrightarrow> q = Wq_clear_sleep)) \<and>
     job_held Clear_dtc_work q evs \<and> job_trace Clear_dtc_work evs"

lemma clear_inv_ignores:
  assumes "clear_inv cs q evs" "awaited Clear_dtc_work evs' = awaited Clear_dtc_work evs" "queued Clear_dtc_work evs' = queued Clear_dtc_work evs"
    "timer_mode Clear_nrc78_timer evs' = timer_mode Clear_nrc78_timer evs" "job_trace Clear_dtc_work evs'"
  shows "clear_inv cs q evs'"
  using assms by (simp add: clear_inv_def job_held_def)

lemma clear_handle_inv:
  assumes "clear_inv cs q (trace i)" "req ! 0 = 0x14" "pending_exact e"
    and "work_busy Clear_dtc_work (trace i) \<longleftrightarrow> queued Clear_dtc_work (trace i) \<or> running q = Some Clear_dtc_work"
  shows "clear_inv (fst (uds_clear_dtc_handle e send nrc req len (cs, i))) q
    (trace (snd (uds_clear_dtc_handle e send nrc req len (cs, i))))"
proof -
  have idle: "\<not> work_busy Clear_dtc_work (trace i) \<Longrightarrow> \<not> queued Clear_dtc_work (trace i) \<and> serving q \<noteq> Some Clear_dtc_work \<and> q \<noteq> Wq_clear_sleep"
    using assms(4) by (auto simp: serving_def split: wq_phase.splits)
  have asked: "clear_inv cs q (K_work_is_pending w # trace i)" for w
    using assms(1) by (simp add: clear_inv_def job_held_def job_trace_def)
  have n: "clear_inv cs q (nrc_trace 0x14 k a @ evs)" if "k \<noteq> UDS_NRC_RESPONSE_PENDING" "clear_inv cs q evs" for k a evs
    using that by (intro clear_inv_ignores [OF that(2)]) (simp_all add: job_trace_nrc clear_inv_def)
  show ?thesis
    using assms(1-3) n n [OF _ asked] idle
    by (simp add: uds_clear_dtc_handle_def Let_def pending_exact_def,
        auto simp: clear_inv_def job_held_def job_trace_def pending_frame_def)
qed

lemma clear_inv_dispatch:
  assumes "clear_inv (clear_st s) (wq s) (tr s)" "uds_tx_buf (io_st s) \<noteq> []" "pending_exact e"
    and "work_busy Clear_dtc_work (tr s) \<longleftrightarrow> queued Clear_dtc_work (tr s) \<or> running (wq s) = Some Clear_dtc_work"
  shows "clear_inv (clear_st (uds_dispatch c e req len a (accepted c a s)))
    (wq (uds_dispatch c e req len a (accepted c a s))) (tr (uds_dispatch c e req len a (accepted c a s)))"
proof (cases "req ! 0 = 0x14")
  case True
  have "clear_inv (clear_st s) (wq s) (trace (io_st (accepted c a s)))"
    using assms(1) by (intro clear_inv_ignores [OF assms(1)])
      (simp_all add: timer_mode_s3_event job_trace_s3_event, simp add: clear_inv_def)
  from clear_handle_inv [OF this True assms(3)] assms(4) True show ?thesis by (simp add: dispatch_0x14 timer_mode_s3_event)
next
  case False
  have buf: "uds_tx_buf (io_st (accepted c a s)) \<noteq> []" using assms(2) by simp
  show ?thesis
    using assms False ignores_dispatch [OF ignores_timer(2) buf, of req Clear_nrc78_timer]
      ignores_dispatch [OF ignores_work(4) buf, of req Clear_dtc_work]
      ignores_dispatch [OF ignores_awaited(2) buf, of req Clear_dtc_work] job_trace_dispatch [of Clear_dtc_work s req]
    by (simp add: dispatch_clear clear_inv_def job_held_def timer_mode_s3_event job_trace_s3_event)
qed

lemma reachable_clear:
  assumes "reachable c e s" "kconfig_ok c" "pending_exact e"
  shows "clear_inv (clear_st s) (wq s) (tr s)"
  using assms(1)
proof (induction rule: reachable_invariant)
  case boot
  then show ?case
    using boot_job [OF boot_trace [OF boot], of Clear_dtc_work] boot_work [OF boot_trace [OF boot], of Clear_dtc_work]
      boot_timer_other [OF boot_trace [OF boot], of Clear_nrc78_timer]
    by (simp add: clear_inv_def job_held_def booted_sel clear_state_0_def)
next
  case (request s a buf len)
  then show ?case
    using reachable_tx_buf [OF request(1) assms(2)] assms(3) busy_inv [OF request(1) assms(2)] by (intro clear_inv_dispatch)
next
  case (periodic s)
  have p: "periodic_inv (periodic_st s)" by (rule reachable_tx_buf [OF periodic(1) assms(2)])
  with periodic(2) job_trace_round [of Clear_dtc_work s e] show ?case
    by (simp add: clear_inv_def job_held_def ignores_round [where F = "awaited Clear_dtc_work"] ignores_round [where F = "queued Clear_dtc_work"]
        ignores_round [where F = "timer_mode Clear_nrc78_timer"])
next
  case (routine_tick s)
  then show ?case
    using reachable_routine [OF routine_tick(1) assms(2)]
    by (auto simp: clear_inv_def job_held_def job_trace_def pending_frame_def routine_inv_def split: option.splits if_splits)
qed (auto simp: clear_inv_def job_held_def job_trace_def pending_frame_def timer_running_def
    split: option.splits if_splits prod.splits)

text \<open>
  A routine is marked running exactly while its result is awaited and its timer armed; each accepted start is followed
  by exactly one result frame, and ResponsePending is sent only in between. The same holds of clear requests, whose timer
  runs until the application is done.
\<close>

lemma routine_jobs:
  assumes "reachable c e s" "kconfig_ok c"
  shows "(erase_routine_status (routine_st s) = ROUTINE_RUNNING \<longleftrightarrow> awaited Routine_work (tr s)) \<and>
    (timer_running Routine_nrc78_timer (tr s) \<longleftrightarrow> awaited Routine_work (tr s)) \<and>
    submits Routine_work (tr s) = finals Routine_work (tr s) + (if awaited Routine_work (tr s) then 1 else 0) \<and>
    pending_honest Routine_work (tr s)"
  using reachable_routine [OF assms] by (simp add: routine_inv_def job_trace_def timer_running_def)

lemma clear_jobs:
  assumes "reachable c e s" "kconfig_ok c" "pending_exact e"
  shows "(timer_running Clear_nrc78_timer (tr s) \<longleftrightarrow> awaited Clear_dtc_work (tr s) \<and> \<not> worker_done (clear_st s)) \<and>
    submits Clear_dtc_work (tr s) = finals Clear_dtc_work (tr s) + (if awaited Clear_dtc_work (tr s) then 1 else 0) \<and>
    pending_honest Clear_dtc_work (tr s)"
  using reachable_clear [OF assms] by (simp add: clear_inv_def job_trace_def timer_running_def)

section \<open>Resets\<close>

text \<open>The reset type in the last positive answer of service 0x11, and the mode each type asks for.\<close>

fun last_reset :: "trace \<Rightarrow> u8 option" where
  "last_reset [] = None"
| "last_reset (Isotp_send f # evs) =
     (if 2 \<le> length f \<and> hd f = 0x51 then Some (f ! 1) else last_reset evs)"
| "last_reset (_ # evs) = last_reset evs"

definition reset_mode :: "u8 \<Rightarrow> reboot_mode option" where
  "reset_mode b =
     (if b = 0x01 then Some SYS_REBOOT_COLD else if b = 0x03 then Some SYS_REBOOT_WARM else None)"

text \<open>Every reboot was announced to the tester, in the mode asked for.\<close>

fun reboots_announced :: "trace \<Rightarrow> bool" where
  "reboots_announced [] \<longleftrightarrow> True"
| "reboots_announced (Sys_reboot m # evs) \<longleftrightarrow>
     (\<exists>b. last_reset evs = Some b \<and> reset_mode b = Some m) \<and> reboots_announced evs"
| "reboots_announced (_ # evs) \<longleftrightarrow> reboots_announced evs"

definition reset_inv :: "reset_state \<Rightarrow> trace \<Rightarrow> bool" where
  "reset_inv rs evs \<longleftrightarrow>
     (timer_mode Reset_timer evs \<noteq> None \<longrightarrow> last_reset evs \<noteq> None) \<and>
     (\<forall>b. last_reset evs = Some b \<longrightarrow> reset_mode b = Some (chosen_reset_type rs)) \<and>
     reboots_announced evs"

lemma sid_reset: "sid + 0x40 = 0x51 \<longleftrightarrow> sid = 0x11" for sid :: u8
  using add_right_cancel [of sid "0x40" "0x11"] by simp

lemma ignores_last_reset [simp]:
  "ignores last_reset periodic_event"
  "sid \<noteq> 0x11 \<Longrightarrow> ignores last_reset (service_event sid)"
proof -
  have "periodic_event ev \<Longrightarrow> last_reset (ev # evs) = last_reset evs" for ev evs
    by (cases ev) auto
  then show "ignores last_reset periodic_event" by (simp add: ignores_def)
next
  assume "sid \<noteq> 0x11"
  then have "service_event sid ev \<Longrightarrow> last_reset (ev # evs) = last_reset evs" for ev evs
    by (cases ev) (auto simp: service_event_def sid_reset)
  then show "ignores last_reset (service_event sid)" by (simp add: ignores_def)
qed

lemma ignores_reboots [simp]:
  "ignores reboots_announced periodic_event" "ignores reboots_announced (service_event sid)"
proof -
  have "periodic_event ev \<Longrightarrow> reboots_announced (ev # evs) = reboots_announced evs" for ev evs
    by (cases ev) auto
  then show "ignores reboots_announced periodic_event" by (simp add: ignores_def)
  have "service_event sid ev \<Longrightarrow> reboots_announced (ev # evs) = reboots_announced evs" for ev evs
    by (cases ev) (auto simp: service_event_def)
  then show "ignores reboots_announced (service_event sid)" by (simp add: ignores_def)
qed

lemma reset_inv_nrc [simp]: "reset_inv rs (nrc_trace sid nrc a @ evs) = reset_inv rs evs"
  by (simp add: reset_inv_def nrc_trace_def)

lemma reset_handle_inv:
  assumes "reset_inv rs (trace i)" "req ! 0 = 0x11" "2 \<le> length (uds_tx_buf i)"
  shows "reset_inv (fst (uds_reset_handle send nrc req len (rs, i)))
    (trace (snd (uds_reset_handle send nrc req len (rs, i))))"
  using assms take_head(1) [OF assms(3), of _ "0x51"]
  by (simp add: uds_reset_handle_def Let_def, auto simp: reset_inv_def reset_mode_def)

lemma dispatch_0x11:
  "req ! 0 = 0x11 \<Longrightarrow> uds_dispatch c e req len a s =
     on_reset (uds_reset_handle Uds_send_response Uds_send_nrc req len) s"
  by (simp add: uds_dispatch_def Let_def)

lemma reset_inv_dispatch:
  assumes "reset_inv (reset_st s) (tr s)" "2 \<le> length (uds_tx_buf (io_st s))"
  shows "reset_inv (reset_st (uds_dispatch c e req len a (accepted c a s)))
    (tr (uds_dispatch c e req len a (accepted c a s)))"
proof (cases "req ! 0 = 0x11")
  case True
  have "reset_inv (reset_st s) (trace (io_st (accepted c a s)))"
    using assms(1) by (simp add: reset_inv_def s3_event_def)
  from reset_handle_inv [OF this True] True assms(2) show ?thesis by (simp add: dispatch_0x11)
next
  case False
  have buf: "uds_tx_buf (io_st (accepted c a s)) \<noteq> []" using assms(2) by auto
  show ?thesis
    using assms False ignores_dispatch [OF ignores_timer(2) buf, of req Reset_timer]
      ignores_dispatch [OF ignores_last_reset(2) buf, of req] ignores_dispatch [OF ignores_reboots(2) buf]
    by (simp add: dispatch_reset reset_inv_def timer_mode_s3_event, simp add: s3_event_def)
qed

lemma init_event_reset:
  "\<forall>ev \<in> set evs. init_event c ev \<Longrightarrow> last_reset evs = None \<and> reboots_announced evs"
proof (induction evs)
  case (Cons ev evs) then show ?case by (cases ev) auto
qed simp

lemma reachable_reset:
  assumes "reachable c e s" "kconfig_ok c"
  shows "reset_inv (reset_st s) (tr s)"
  using assms(1)
proof (induction rule: reachable_invariant)
  case boot
  then show ?case
    using init_event_reset [OF boot_trace [OF boot]] boot_timer_other [OF boot_trace [OF boot], of Reset_timer]
    by (simp add: reset_inv_def booted_sel)
next
  case (request s a buf len)
  then show ?case
    using reachable_tx_buf [OF request(1) assms(2)] kconfig_buff [OF assms(2)]
    by (intro reset_inv_dispatch) simp_all
next
  case (periodic s)
  have p: "periodic_inv (periodic_st s)" by (rule reachable_tx_buf [OF periodic(1) assms(2)])
  with periodic(2) show ?case
    by (simp add: reset_inv_def ignores_round [where F = last_reset]
        ignores_round [where F = reboots_announced] ignores_round [where F = "timer_mode Reset_timer"])
next
  case (reset s)
  then show ?case by (auto simp: reset_inv_def timer_running_def split: option.splits)
next
  case (routine_end s ret info)
  then show ?case
    by (auto simp: reset_inv_def split: option.splits)
qed (auto simp: reset_inv_def nrc_trace_def split: option.splits)

section \<open>The work queue drains\<close>

lemma queue_becomes_idle:
  "\<exists>t. (uds_step c e)\<^sup>*\<^sup>* s t \<and> wq t = Wq_idle \<and> work_queue (tr t) = work_queue (tr s)"
proof -
  have sent: "\<exists>t. (uds_step c e)\<^sup>*\<^sup>* s t \<and> wq t = Wq_idle \<and> work_queue (tr t) = work_queue (tr s)"
    if "wq s = Wq_sent w" for s w
  proof -
    have "uds_step c e s (work_return w s)" using that by (intro background_steps)
    then show ?thesis by (intro exI [of _ "work_return w s"]) simp
  qed
  have sleep: "\<exists>t. (uds_step c e)\<^sup>*\<^sup>* s t \<and> wq t = Wq_idle \<and> work_queue (tr t) = work_queue (tr s)"
    if "wq s = Wq_clear_sleep" for s
  proof -
    have "uds_step c e s (clear_end s)" using that by (intro background_steps)
    moreover obtain t where "(uds_step c e)\<^sup>*\<^sup>* (clear_end s) t" "wq t = Wq_idle" "work_queue (tr t) = work_queue (tr (clear_end s))"
      using sent [of "clear_end s"] by auto
    moreover have "work_queue (tr (clear_end s)) = work_queue (tr s)" by (simp split: option.split)
    ultimately show ?thesis by (intro exI [of _ t]) (auto intro: converse_rtranclp_into_rtranclp)
  qed
  show ?thesis
  proof (cases "wq s")
    case Wq_idle
    then show ?thesis by blast
  next
    case (Wq_routine_hook ret info)
    then have "uds_step c e s (routine_end ret info s)" by (intro background_steps)
    moreover obtain t where "(uds_step c e)\<^sup>*\<^sup>* (routine_end ret info s) t" "wq t = Wq_idle"
      "work_queue (tr t) = work_queue (tr (routine_end ret info s))" using sent [of "routine_end ret info s"] by auto
    moreover have "work_queue (tr (routine_end ret info s)) = work_queue (tr s)" by (simp split: option.split)
    ultimately show ?thesis by (intro exI [of _ t]) (auto intro: converse_rtranclp_into_rtranclp)
  next
    case Wq_clear_hook
    then have "uds_step c e s (clear_done s)" by (intro background_steps)
    moreover obtain t where "(uds_step c e)\<^sup>*\<^sup>* (clear_done s) t" "wq t = Wq_idle" "work_queue (tr t) = work_queue (tr (clear_done s))"
      using sleep [of "clear_done s"] by auto
    ultimately show ?thesis by (intro exI [of _ t]) (auto intro: converse_rtranclp_into_rtranclp)
  qed (use sent sleep in blast)+
qed

lemma work_begins:
  assumes "wq s = Wq_idle" "work_queue (tr s) = w # ws"
  shows "\<exists>t. uds_step c e s t \<and> work_queue (tr t) = filter (\<lambda>w'. w' \<noteq> w) ws"
proof (cases w)
  case Routine_work
  then have "uds_step c e s (routine_begin e s)" using assms by (intro background_steps) simp_all
  then show ?thesis using assms Routine_work by (intro exI [of _ "routine_begin e s"]) simp
next
  case Clear_dtc_work
  then have "uds_step c e s (clear_begin e s)" using assms by (intro background_steps) simp_all
  then show ?thesis using assms Clear_dtc_work by (intro exI [of _ "clear_begin e s"]) (simp split: option.split)
qed

lemma jobs_finish: "\<exists>t. (uds_step c e)\<^sup>*\<^sup>* s t \<and> wq t = Wq_idle \<and> work_queue (tr t) = []"
proof (induction "length (work_queue (tr s))" arbitrary: s rule: less_induct)
  case less
  obtain t where t: "(uds_step c e)\<^sup>*\<^sup>* s t" "wq t = Wq_idle" "work_queue (tr t) = work_queue (tr s)"
    using queue_becomes_idle by blast
  show ?case
  proof (cases "work_queue (tr s)")
    case (Cons w ws)
    then obtain u where u: "uds_step c e t u" "work_queue (tr u) = filter (\<lambda>w'. w' \<noteq> w) ws"
      using work_begins [OF t(2), of w ws] t(3) by auto
    have "length (work_queue (tr u)) < length (work_queue (tr s))"
      using length_filter_le [of "\<lambda>w'. w' \<noteq> w" ws] by (simp add: u(2) Cons le_imp_less_Suc)
    from less [OF this] obtain v where "(uds_step c e)\<^sup>*\<^sup>* u v" "wq v = Wq_idle" "work_queue (tr v) = []" by blast
    with t(1) u(1) show ?thesis by (meson rtranclp.rtrancl_into_rtrancl rtranclp_trans)
  qed (use t in auto)
qed

end
