(* ===== verification/Uds_Interleaved_Jobs.thy ===== *)
theory Uds_Interleaved_Jobs
  imports Uds_Interleaving Uds_Background "HOL-Library.Sublist"
begin

text \<open>
  The jobs of the work queue among the statements of the two threads: a routine or a clear request is handed over in
  seven statements, between which its timer may already expire and other handlers may run. A second pair of
  outlines shows that no job is lost or doubled.
\<close>

section \<open>What the trace says of a job\<close>

fun job_timer :: "work \<Rightarrow> timer" where
  "job_timer Routine_work = Routine_nrc78_timer"
| "job_timer Clear_dtc_work = Clear_nrc78_timer"

text \<open>
  The tester is waiting for a result: the timer of the job has been started, and no result sent since.
  ResponsePending is in time when the tester is.
\<close>

fun waiting :: "work \<Rightarrow> trace \<Rightarrow> bool" where
  "waiting w [] \<longleftrightarrow> False"
| "waiting w (K_timer_start t d p # evs) \<longleftrightarrow> t = job_timer w \<or> waiting w evs"
| "waiting w (Isotp_send f # evs) \<longleftrightarrow> \<not> final_frame w f \<and> waiting w evs"
| "waiting w (_ # evs) \<longleftrightarrow> waiting w evs"

fun pending_in_time :: "work \<Rightarrow> trace \<Rightarrow> bool" where
  "pending_in_time w [] \<longleftrightarrow> True"
| "pending_in_time w (Isotp_send f # evs) \<longleftrightarrow> (f = pending_frame w \<longrightarrow> waiting w evs) \<and> pending_in_time w evs"
| "pending_in_time w (_ # evs) \<longleftrightarrow> pending_in_time w evs"

definition scan :: "work \<Rightarrow> trace \<Rightarrow> bool \<times> bool \<times> bool \<times> nat \<times> nat \<times> bool \<times> bool \<times> nat option" where
  "scan w evs = (queued w evs, work_busy w evs, awaited w evs, submits w evs, finals w evs, waiting w evs, pending_in_time w evs,
     timer_mode (job_timer w) evs)"

definition job_ok :: "work \<Rightarrow> trace \<Rightarrow> bool" where
  "job_ok w evs \<longleftrightarrow>
     submits w evs = finals w evs + (if awaited w evs then 1 else 0) \<and> pending_in_time w evs \<and>
     (timer_mode (job_timer w) evs \<noteq> None \<longrightarrow> waiting w evs)"

lemma job_timer_service [simp]:
  "timer_service (job_timer w) = work_service w"
  "job_timer w \<noteq> S3_timer" "job_timer w \<noteq> Lockout_timer" "job_timer w \<noteq> Reset_timer"
  "S3_timer \<noteq> job_timer w" "Lockout_timer \<noteq> job_timer w" "Reset_timer \<noteq> job_timer w"
  by (cases w; simp)+

lemma all_work: "(\<forall>w. P w) \<longleftrightarrow> P Routine_work \<and> P Clear_dtc_work"
  by (metis work.exhaust)

lemma ignores_scan [simp]:
  "ignores (scan w) periodic_event"
  "sid \<noteq> work_service w \<Longrightarrow> sid \<noteq> 0x3F \<Longrightarrow> ignores (scan w) (service_event sid)"
proof -
  have "scan w (ev # evs) = scan w evs" if "periodic_event ev" for ev evs
  proof (cases ev)
    case (Isotp_send f)
    then show ?thesis using that by (cases w) (auto simp: scan_def pending_frame_def)
  qed (use that in \<open>simp_all add: scan_def\<close>)
  then show "ignores (scan w) periodic_event" by (simp add: ignores_def)
next
  assume sid: "sid \<noteq> work_service w" "sid \<noteq> 0x3F"
  have "scan w (ev # evs) = scan w evs" if ev: "service_event sid ev" for ev evs
  proof (cases ev)
    case (Isotp_send f)
    then show ?thesis using not_final [OF sid(1) ev [unfolded Isotp_send]] sid(2) by (simp add: scan_def)
  next
    case (K_timer_start t d p)
    then have "sid = timer_service t" using ev by (simp add: service_event_def)
    then have "t \<noteq> job_timer w" using sid(1) by auto
    then show ?thesis using K_timer_start by (simp add: scan_def)
  qed (use ev sid in \<open>auto simp: scan_def service_event_def\<close>)
  then show "ignores (scan w) (service_event sid)" by (simp add: ignores_def)
qed

lemma scan_calls [simp]:
  "scan w (K_timer_start S3_timer d p # evs) = scan w evs" "scan w (K_timer_start Lockout_timer d p # evs) = scan w evs"
  "scan w (K_timer_start Reset_timer d p # evs) = scan w evs" "scan w (K_timer_stop S3_timer # evs) = scan w evs"
  "scan w (Isotp_bind l rx tx fc # evs) = scan w evs" "scan w (Isotp_recv l n # evs) = scan w evs"
  "scan w (Nvs_write fs k bs # evs) = scan w evs" "scan w (Device_is_ready d' # evs) = scan w evs"
  "scan w (Entropy_get_entropy n # evs) = scan w evs" "scan w (K_uptime_get_32 # evs) = scan w evs"
  "scan w (App_verify_key_krypto lv sd ky # evs) = scan w evs" "scan w (K_work_is_pending w' # evs) = scan w evs"
  "scan w (App_routine_request_results x # evs) = scan w evs" "scan w (K_msleep n # evs) = scan w evs"
  "scan w (App_get_periodic_did y # evs) = scan w evs"
  by (simp_all add: scan_def)

text \<open>A frame that is neither a result nor ResponsePending.\<close>

lemma scan_frame:
  "f \<noteq> [] \<Longrightarrow> hd f \<notin> {0x71, 0x54, 0x7F} \<Longrightarrow> scan w (Isotp_send f # evs) = scan w evs"
  by (cases w) (auto simp: scan_def pending_frame_def)

lemma scan_nrc [simp]:
  "nrc \<noteq> UDS_NRC_RESPONSE_PENDING \<Longrightarrow> scan w (nrc_trace sid nrc a @ evs) = scan w evs"
  by (cases w) (simp_all add: scan_def nrc_trace_def pending_frame_def)

lemma job_ok_scan: "scan w evs' = scan w evs \<Longrightarrow> job_ok w evs' = job_ok w evs"
  by (simp add: scan_def job_ok_def)

section \<open>Where a job is\<close>

text \<open>
  A place before the item is submitted: whether the routine is marked as running, whether the timer is started, and
  whether the callback is stored.
\<close>

definition services_stored :: "system \<Rightarrow> bool" where
  "services_stored s \<longleftrightarrow> stored_routine_sid (routine_st s) = 0x31 \<and> stored_sid (clear_st s) = 0x14"

definition routine_place :: "bool \<Rightarrow> bool \<Rightarrow> bool \<Rightarrow> system \<Rightarrow> bool" where
  "routine_place marked armed stored s \<longleftrightarrow>
     \<not> awaited Routine_work (tr s) \<and> job_held Routine_work (wq s) (tr s) \<and>
     (erase_routine_status (routine_st s) = ROUTINE_RUNNING \<longleftrightarrow> marked) \<and>
     timer_mode Routine_nrc78_timer (tr s) = (if armed then Some 20 else None) \<and>
     (stored \<longrightarrow> stored_routine_send_cb (routine_st s) \<noteq> None) \<and> job_ok Routine_work (tr s)"

definition routine_busy :: "system \<Rightarrow> bool" where
  "routine_busy s \<longleftrightarrow>
     awaited Routine_work (tr s) \<and> job_held Routine_work (wq s) (tr s) \<and> erase_routine_status (routine_st s) = ROUTINE_RUNNING \<and>
     timer_mode Routine_nrc78_timer (tr s) = Some 20 \<and> stored_routine_send_cb (routine_st s) \<noteq> None \<and>
     job_ok Routine_work (tr s)"

definition routine_rest :: "system \<Rightarrow> bool" where
  "routine_rest s \<longleftrightarrow> routine_place False False False s \<or> routine_busy s"

definition clear_busy_exact :: "system \<Rightarrow> bool" where
  "clear_busy_exact s \<longleftrightarrow>
     (work_busy Clear_dtc_work (tr s) \<longleftrightarrow> queued Clear_dtc_work (tr s) \<or> running (wq s) = Some Clear_dtc_work)"

definition clear_place :: "bool \<Rightarrow> bool \<Rightarrow> bool \<Rightarrow> system \<Rightarrow> bool" where
  "clear_place undone armed stored s \<longleftrightarrow>
     \<not> awaited Clear_dtc_work (tr s) \<and> job_held Clear_dtc_work (wq s) (tr s) \<and> clear_busy_exact s \<and>
     (undone \<longrightarrow> \<not> worker_done (clear_st s)) \<and>
     timer_mode Clear_nrc78_timer (tr s) = (if armed then Some 0 else None) \<and> (armed \<longrightarrow> undone) \<and>
     (stored \<longrightarrow> stored_send_cb (clear_st s) \<noteq> None) \<and> job_ok Clear_dtc_work (tr s)"

definition clear_busy :: "system \<Rightarrow> bool" where
  "clear_busy s \<longleftrightarrow>
     awaited Clear_dtc_work (tr s) \<and> job_held Clear_dtc_work (wq s) (tr s) \<and> clear_busy_exact s \<and>
     (worker_done (clear_st s) \<longleftrightarrow> wq s = Wq_clear_sleep) \<and>
     timer_mode Clear_nrc78_timer (tr s) = (if worker_done (clear_st s) then None else Some 0) \<and>
     stored_send_cb (clear_st s) \<noteq> None \<and> job_ok Clear_dtc_work (tr s)"

definition clear_rest :: "system \<Rightarrow> bool" where
  "clear_rest s \<longleftrightarrow> clear_place False False False s \<or> clear_busy s"

text \<open>What holds of a job wherever the threads are: it is accounted for, in one place, and can be answered.\<close>

fun result_cb :: "work \<Rightarrow> system \<Rightarrow> send_cb option" where
  "result_cb Routine_work s = stored_routine_send_cb (routine_st s)"
| "result_cb Clear_dtc_work s = stored_send_cb (clear_st s)"

definition job_good :: "work \<Rightarrow> system \<Rightarrow> bool" where
  "job_good w s \<longleftrightarrow>
     job_ok w (tr s) \<and> job_held w (wq s) (tr s) \<and> (awaited w (tr s) \<longrightarrow> result_cb w s \<noteq> None)"

section \<open>What the background does to it\<close>

lemma background_services: "background e s t \<Longrightarrow> services_stored s \<Longrightarrow> services_stored t"
  by (auto elim!: background.cases simp: services_stored_def routine_worker_finish_def Let_def split: option.splits)

lemma background_routine_place:
  assumes "background e s t" "services_stored s" "routine_place marked armed stored s"
  shows "routine_place marked armed stored t"
  using assms(1)
  by cases (use assms(2,3) in \<open>auto simp: routine_place_def job_held_def job_ok_def services_stored_def pending_frame_def
      timer_running_def nrc_trace_def split: option.splits prod.splits if_splits\<close>)

lemma background_clear_place:
  assumes "background e s t" "services_stored s" "clear_place undone armed stored s"
  shows "clear_place undone armed stored t"
  using assms(1)
  by cases (use assms(2,3) in \<open>auto simp: clear_place_def clear_busy_exact_def job_held_def job_ok_def services_stored_def pending_frame_def
      timer_running_def nrc_trace_def split: option.splits prod.splits if_splits\<close>)

lemma background_routine_rest:
  assumes "background e s t" "services_stored s" "routine_rest s"
  shows "routine_rest t"
proof (cases "routine_place False False False s")
  case True
  then show ?thesis using background_routine_place [OF assms(1,2)] by (simp add: routine_rest_def)
next
  case False
  then have b: "routine_busy s" using assms(3) by (simp add: routine_rest_def)
  show ?thesis
    using assms(1)
    by cases (use b assms(2) in \<open>auto simp: routine_rest_def routine_place_def routine_busy_def job_held_def job_ok_def services_stored_def
        pending_frame_def timer_running_def nrc_trace_def routine_worker_finish_def Let_def
        split: option.splits prod.splits if_splits\<close>)
qed

lemma background_clear_rest:
  assumes "background e s t" "services_stored s" "clear_rest s"
  shows "clear_rest t"
proof (cases "clear_place False False False s")
  case True
  then show ?thesis using background_clear_place [OF assms(1,2)] by (simp add: clear_rest_def)
next
  case False
  then have b: "clear_busy s" using assms(3) by (simp add: clear_rest_def)
  show ?thesis
    using assms(1)
    by cases (use b assms(2) in \<open>auto simp: clear_rest_def clear_place_def clear_busy_def clear_busy_exact_def job_held_def job_ok_def services_stored_def
        pending_frame_def timer_running_def nrc_trace_def split: option.splits prod.splits if_splits\<close>)
qed

section \<open>The outlines of the receive thread\<close>

text \<open>
  The receive thread relies on a background step, or something that leaves the jobs, the transmit buffer and the number
  of periodic identifiers alone; it leaves the buffer of the periodic thread and the handlers alone, and what it submits
  waits behind what waits already.
\<close>

definition same_jobs :: "system \<Rightarrow> system \<Rightarrow> bool" where
  "same_jobs s t \<longleftrightarrow>
     routine_st t = routine_st s \<and> clear_st t = clear_st s \<and> wq t = wq s \<and> (\<forall>w. scan w (tr t) = scan w (tr s))"

definition beside_jobs :: "kconfig \<Rightarrow> env \<Rightarrow> system \<Rightarrow> system \<Rightarrow> bool" where
  "beside_jobs c e s t \<longleftrightarrow> background e s t \<or>
     (buffers_ok c s \<longrightarrow> buffers_ok c t \<and> same_jobs s t \<and> uds_tx_buf (io_st t) = uds_tx_buf (io_st s) \<and>
        active_did_count (periodic_st t) = active_did_count (periodic_st s))"

definition rx_gives :: "system \<Rightarrow> system \<Rightarrow> bool" where
  "rx_gives s t \<longleftrightarrow> periodic_tx_buf (periodic_st t) = periodic_tx_buf (periodic_st s) \<and> wq t = wq s \<and>
     prefix (work_queue (tr s)) (work_queue (tr t))"

lemma served_queue:
  assumes "served sid i j"
  shows "prefix (work_queue (trace i)) (work_queue (trace j))"
proof -
  have keeps: "prefix q (work_queue (ev # evs))" if "prefix q (work_queue evs)" "\<forall>w. ev \<noteq> K_work_begin w" for q ev evs
    using that by (cases ev) auto
  have "\<forall>w. ev \<noteq> K_work_begin w" if "ev \<in> set (new_events i j)" for ev
    using that assms by (auto simp: served_def)
  then have "prefix (work_queue (trace i)) (work_queue (new_events i j @ trace i))"
    by (intro closed_append [where P = "\<lambda>ev. \<forall>w. ev \<noteq> K_work_begin w" and Q = "\<lambda>evs. prefix (work_queue (trace i)) (work_queue evs)"])
      (use keeps in auto)
  moreover have "trace j = new_events i j @ trace i" using assms by (simp add: served_def grows_def)
  ultimately show ?thesis by simp
qed

definition jobs_at :: "kconfig \<Rightarrow> env \<Rightarrow> (system \<Rightarrow> bool) \<Rightarrow> (system \<Rightarrow> bool) \<Rightarrow> system \<Rightarrow> bool" where
  "jobs_at c e R C s \<longleftrightarrow>
     kconfig_ok c \<and> pending_exact e \<and> buffers_ok c s \<and> services_stored s \<and> R s \<and> C s"

abbreviation jobs_rest :: "kconfig \<Rightarrow> env \<Rightarrow> system \<Rightarrow> bool" where
  "jobs_rest c e \<equiv> jobs_at c e routine_rest clear_rest"

definition jobs_good :: "kconfig \<Rightarrow> system \<Rightarrow> bool" where
  "jobs_good c s \<longleftrightarrow> buffers_ok c s \<and> (\<forall>w. job_good w s)"

abbreviation job_outline ::
    "kconfig \<Rightarrow> env \<Rightarrow> (system \<Rightarrow> bool) \<Rightarrow> system prog \<Rightarrow> bool" where
  "job_outline c e \<equiv> outline (beside_jobs c e) rx_gives (jobs_good c) (jobs_rest c e)"

text \<open>The assertions the others keep.\<close>

definition fit :: "env \<Rightarrow> work \<Rightarrow> (system \<Rightarrow> bool) \<Rightarrow> bool" where
  "fit e w P \<longleftrightarrow>
     (\<forall>s t. background e s t \<longrightarrow> services_stored s \<longrightarrow> P s \<longrightarrow> P t) \<and>
     (\<forall>s t. same_jobs s t \<longrightarrow> P s \<longrightarrow> P t) \<and> (\<forall>s. P s \<longrightarrow> job_good w s)"

lemma same_jobs_scan:
  assumes "same_jobs s t"
  shows "work_busy w (tr t) = work_busy w (tr s)" "awaited w (tr t) = awaited w (tr s)"
    "job_held w (wq t) (tr t) = job_held w (wq s) (tr s)" "queued w (tr t) = queued w (tr s)" "job_ok w (tr t) = job_ok w (tr s)"
    "timer_mode (job_timer w) (tr t) = timer_mode (job_timer w) (tr s)"
  using assms by (simp_all add: same_jobs_def scan_def job_ok_def job_held_def)

lemma fit_places:
  "fit e Routine_work (routine_place r a k)" "fit e Routine_work routine_rest"
  "fit e Clear_dtc_work (clear_place u a k)" "fit e Clear_dtc_work clear_rest"
proof -
  have r: "routine_place r a k t = routine_place r a k s" "routine_busy t = routine_busy s" if "same_jobs s t" for r a k s t
    using that same_jobs_scan(2-5) [OF that, of Routine_work] same_jobs_scan(6) [OF that, of Routine_work]
    by (simp_all add: routine_place_def routine_busy_def same_jobs_def)
  have c: "clear_place u a k t = clear_place u a k s" "clear_busy t = clear_busy s" if "same_jobs s t" for u a k s t
    using that same_jobs_scan(1-5) [OF that, of Clear_dtc_work] same_jobs_scan(6) [OF that, of Clear_dtc_work]
    by (simp_all add: clear_place_def clear_busy_def clear_busy_exact_def same_jobs_def)
  have ok: "routine_place r a k s \<Longrightarrow> job_good Routine_work s" "routine_rest s \<Longrightarrow> job_good Routine_work s"
    "clear_place u a k s \<Longrightarrow> job_good Clear_dtc_work s" "clear_rest s \<Longrightarrow> job_good Clear_dtc_work s" for r u a k s
    by (auto simp: routine_rest_def routine_place_def routine_busy_def clear_rest_def clear_place_def clear_busy_def job_good_def)
  have rest: "routine_rest t = routine_rest s" "clear_rest t = clear_rest s" if "same_jobs s t" for s t
    using r c that by (simp_all add: routine_rest_def clear_rest_def)
  show "fit e Routine_work (routine_place r a k)"
    unfolding fit_def using background_routine_place r(1) ok(1) by blast
  show "fit e Clear_dtc_work (clear_place u a k)"
    unfolding fit_def using background_clear_place c(1) ok(3) by blast
  show "fit e Routine_work routine_rest"
    unfolding fit_def using background_routine_rest rest(1) ok(2) by blast
  show "fit e Clear_dtc_work clear_rest"
    unfolding fit_def using background_clear_rest rest(2) ok(4) by blast
qed

lemma jobs_stable:
  assumes "fit e Routine_work R" "fit e Clear_dtc_work C"
  shows "stable (beside_jobs c e) (jobs_at c e R C)"
proof (unfold stable_def, intro allI impI)
  fix s t assume s: "jobs_at c e R C s" and st: "beside_jobs c e s t"
  then have b: "services_stored s" "buffers_ok c s" by (simp_all add: jobs_at_def)
  show "jobs_at c e R C t"
  proof (cases "background e s t")
    case True
    then show ?thesis
      using s assms b background_services [OF True] background_buffers [OF True] by (auto simp: jobs_at_def fit_def)
  next
    case False
    then have "buffers_ok c t" "same_jobs s t" using st b by (simp_all add: beside_jobs_def)
    then show ?thesis using s assms by (auto simp: jobs_at_def fit_def) (simp add: services_stored_def same_jobs_def)
  qed
qed

lemma jobs_sound:
  assumes "fit e Routine_work R" "fit e Clear_dtc_work C" "jobs_at c e R C s"
  shows "jobs_good c s"
proof -
  have "job_good Routine_work s" "job_good Clear_dtc_work s"
    using assms by (simp_all add: fit_def jobs_at_def)
  then have "job_good w s" for w by (cases w) simp_all
  then show ?thesis using assms(3) by (simp add: jobs_good_def jobs_at_def)
qed

lemma job_act:
  assumes "fit e Routine_work R" "fit e Clear_dtc_work C"
    and "\<And>s. jobs_at c e R C s \<Longrightarrow> jobs_at c e R' C' (f s) \<and> rx_gives s (f s)"
    and "job_outline c e (jobs_at c e R' C') p"
  shows "job_outline c e (jobs_at c e R C) (act f p)"
  using assms by (intro outline_act [where B = "jobs_at c e R' C'"]) (auto intro: jobs_stable jobs_sound)

lemma job_Act:
  assumes "\<And>s. jobs_rest c e s \<Longrightarrow> B s (f s) \<and> rx_gives s (f s)"
    and "\<And>s. jobs_rest c e s \<Longrightarrow> job_outline c e (B s) (g s)"
  shows "job_outline c e (jobs_rest c e) (Act f g)"
  using assms
  by (intro outline.act [where B = B]) (auto intro: jobs_stable jobs_sound fit_places)

lemma job_choice:
  assumes "job_outline c e (jobs_rest c e) p" "job_outline c e (jobs_rest c e) q"
  shows "job_outline c e (jobs_rest c e) (ask b p q)"
  using assms by (intro outline_ask [where B = "jobs_rest c e" and B' = "jobs_rest c e"])
    (auto intro: jobs_stable jobs_sound fit_places simp: rx_gives_def)

text \<open>An action that leaves the jobs alone.\<close>

lemma same_jobs_at:
  assumes "same_jobs s t" "buffers_ok c t" "jobs_at c e R C s" "fit e Routine_work R" "fit e Clear_dtc_work C"
  shows "jobs_at c e R C t"
  using assms by (auto simp: jobs_at_def fit_def) (simp add: services_stored_def same_jobs_def)

lemma job_plain:
  assumes "\<And>s. jobs_rest c e s \<Longrightarrow> buffers_ok c s \<Longrightarrow> buffers_ok c (f s) \<and> same_jobs s (f s) \<and> rx_gives s (f s)"
    and "job_outline c e (jobs_rest c e) p"
  shows "job_outline c e (jobs_rest c e) (act f p)"
proof (rule job_act [OF fit_places(2,4) _ assms(2)])
  fix s assume s: "jobs_rest c e s"
  then have "buffers_ok c s" by (simp add: jobs_at_def)
  with assms(1) [OF s] s show "jobs_rest c e (f s) \<and> rx_gives s (f s)"
    by (auto intro: same_jobs_at fit_places)
qed

lemma job_poll: "job_outline c e (jobs_rest c e) Poll"
  by (rule outline.poll)

lemma same_jobs_simps [simp]:
  "same_jobs s (set_status st s)" "same_jobs s (set_counter f1 s)" "same_jobs s (set_seed f2 s)"
  "same_jobs s (set_session ses s)" "same_jobs s (set_reset f3 s)" "same_jobs s (set_periodic f4 s)"
  "same_jobs s (on_io f (set_seed f2 s)) = same_jobs s (on_io f s)"
  "same_jobs s (on_io f s) \<longleftrightarrow> (\<forall>w. scan w (trace (f (io_st s))) = scan w (tr s))"
  by (simp_all add: same_jobs_def set_defs on_io_def)

lemma rx_gives_simps [simp]:
  "rx_gives s s" "rx_gives s (set_status st s)" "rx_gives s (set_counter f1 s)"
  "rx_gives s (set_seed f2 s)" "rx_gives s (set_session ses s)" "rx_gives s (set_reset f3 s)"
  "rx_gives s (set_routine g s)" "rx_gives s (set_clear h s)"
  "rx_gives s (on_io f (set_seed f2 s)) = rx_gives s (on_io f s)"
  "rx_gives s (on_io f s) \<longleftrightarrow> prefix (work_queue (tr s)) (work_queue (trace (f (io_st s))))"
  "rx_gives s (set_periodic f4 s) \<longleftrightarrow> periodic_tx_buf (f4 (periodic_st s)) = periodic_tx_buf (periodic_st s)"
  by (simp_all add: rx_gives_def set_defs on_io_def)

lemma jobs_rest_io:
  assumes "jobs_rest c e s" "\<forall>w. scan w (trace (f (io_st s))) = scan w (tr s)"
    "length (uds_tx_buf (f (io_st s))) = length (uds_tx_buf (io_st s))"
  shows "jobs_rest c e (on_io f s)"
  by (rule same_jobs_at [where s = s, OF _ _ _ fit_places(2,4)])
    (use assms in \<open>simp_all add: jobs_at_def\<close>)

lemma job_nrc: "nrc \<noteq> UDS_NRC_RESPONSE_PENDING \<Longrightarrow> job_outline c e (jobs_rest c e) (nrc_prog sid nrc)"
  unfolding nrc_prog_def by (intro job_plain job_poll) simp

lemma job_refresh:
  assumes "job_outline c e (jobs_rest c e) p"
  shows "job_outline c e (jobs_rest c e) (refresh_prog c' p)"
  unfolding refresh_prog_def by (intro job_choice job_plain assms) simp_all

text \<open>A short answer of another service.\<close>

lemma job_answer:
  assumes "sid + 0x40 \<notin> {0x71, 0x54, 0x7F}" "job_outline c e (jobs_rest c e) p"
  shows "job_outline c e (jobs_rest c e)
    (act (on_io (\<lambda>i. send_tx Uds_send_response 2 (tx_put 1 [k] (tx_put 0 [sid + 0x40] i)))) p)"
proof (rule job_plain [OF _ assms(2)])
  fix s assume "jobs_rest c e s" and b: "buffers_ok c s"
  then have "2 \<le> length (uds_tx_buf (io_st s))" using kconfig_buff [of c] by (simp add: jobs_at_def buffers_ok_def)
  then have "2 \<le> length (uds_tx_buf (io_st s))" "uds_tx_buf (io_st s) \<noteq> []" by auto
  with assms(1) b show "buffers_ok c (on_io (\<lambda>i. send_tx Uds_send_response 2 (tx_put 1 [k] (tx_put 0 [sid + 0x40] i))) s) \<and>
      same_jobs s (on_io (\<lambda>i. send_tx Uds_send_response 2 (tx_put 1 [k] (tx_put 0 [sid + 0x40] i))) s) \<and>
      rx_gives s (on_io (\<lambda>i. send_tx Uds_send_response 2 (tx_put 1 [k] (tx_put 0 [sid + 0x40] i))) s)"
    by (simp add: take_buf_put_first take_head scan_frame)
qed

lemma job_session:
  assumes "req ! 0 = 0x10"
  shows "job_outline c e (jobs_rest c e) (session_prog c req len)"
proof -
  have answer: "job_outline c e (jobs_rest c e)
      (act (on_io (\<lambda>i. send_tx Uds_send_response 2 (tx_put 1 [k] (tx_put 0 [0x10 + 0x40] i)))) Poll)" for k
    by (intro job_answer job_poll) simp
  show ?thesis
    unfolding session_prog_def Let_def assms
    by (intro outline_if job_nrc job_choice job_plain [where f = "set_status x" for x]
        job_plain [where f = "set_session x" for x] job_refresh answer) simp_all
qed

lemma job_reset:
  assumes "req ! 0 = 0x11"
  shows "job_outline c e (jobs_rest c e) (reset_prog req len)"
proof -
  have finish: "job_outline c e (jobs_rest c e)
      (act (on_io (\<lambda>i. send_tx Uds_send_response 2 (tx_put 1 [k] (tx_put 0 [0x11 + 0x40] i))))
        (act (on_io (emit (K_timer_start Reset_timer d 0))) Poll))" for k d
    by (intro job_answer job_plain job_poll) simp_all
  show ?thesis
    unfolding reset_prog_def Let_def assms
    by (intro outline_if job_nrc job_plain [where f = "set_reset x" for x] finish) simp_all
qed

lemma job_bind: "job_outline c e (jobs_rest c e) (bind_prog c e)"
proof -
  have halted: "job_outline c e (jobs_rest c e) Halted"
    by (rule outline.halted) (auto intro: jobs_stable jobs_sound fit_places)
  show ?thesis
    unfolding bind_prog_def
    by (intro job_Act [where B = "\<lambda>_. jobs_rest c e"] outline_if halted job_poll) (simp_all add: jobs_rest_io)
qed

text \<open>Service 0x27; the seed answer is sent from the transmit buffer, which nobody else writes.\<close>

lemma job_seed_answer: "job_outline c e (jobs_rest c e) (seed_answer_prog c 0x27 k)"
proof -
  define n where "n = CONFIG_UDS_SEC_SEED_SIZE c"
  let ?labelled = "\<lambda>s. jobs_rest c e s \<and> uds_tx_buf (io_st s) \<noteq> [] \<and> hd (uds_tx_buf (io_st s)) = 0x67"
  let ?put = "\<lambda>s. on_io (\<lambda>i. tx_put 2 (take n (generated_seed (security_st s))) (tx_put 1 [k] (tx_put 0 [0x27 + 0x40] i))) s"
  have "beside_jobs c e s t \<Longrightarrow> jobs_rest c e s \<Longrightarrow> uds_tx_buf (io_st t) = uds_tx_buf (io_st s)" for s t
    by (auto simp: beside_jobs_def jobs_at_def elim!: background.cases)
  then have st: "stable (beside_jobs c e) ?labelled"
    using jobs_stable [OF fit_places(2,4), of c e] by (auto simp: stable_def)
  have send: "job_outline c e ?labelled (act (on_io (send_tx Uds_send_response (2 + n))) Poll)"
  proof (rule outline_act [OF st _ _ job_poll])
    fix s assume s: "?labelled s"
    then have "take (2 + n) (uds_tx_buf (io_st s)) \<noteq> []" "hd (take (2 + n) (uds_tx_buf (io_st s))) = 0x67" by simp_all
    then have "scan w (tr (on_io (send_tx Uds_send_response (2 + n)) s)) = scan w (tr s)" for w by (simp add: scan_frame)
    with s show "jobs_rest c e (on_io (send_tx Uds_send_response (2 + n)) s) \<and>
        rx_gives s (on_io (send_tx Uds_send_response (2 + n)) s)" by (simp add: jobs_rest_io)
  qed (auto intro: jobs_sound fit_places)
  have "job_outline c e (jobs_rest c e) (act ?put (act (on_io (send_tx Uds_send_response (2 + n))) Poll))"
  proof (rule outline_act [OF jobs_stable [OF fit_places(2,4)] _ _ send])
    fix s assume s: "jobs_rest c e s"
    then have "uds_tx_buf (io_st s) \<noteq> []" using kconfig_buff [of c] by (auto simp: jobs_at_def buffers_ok_def)
    then have "hd (uds_tx_buf (io_st (?put s))) = 0x67" "uds_tx_buf (io_st (?put s)) \<noteq> []"
      by (simp_all add: hd_conv_nth)
    with s show "?labelled (?put s) \<and> rx_gives s (?put s)" by (simp add: jobs_rest_io)
  qed (auto intro: jobs_sound fit_places)
  then show ?thesis by (simp add: seed_answer_prog_def n_def Let_def)
qed

lemma job_security:
  assumes "req ! 0 = 0x27"
  shows "job_outline c e (jobs_rest c e) (security_prog c e req len)"
proof -
  have plain: "job_outline c e (jobs_rest c e) p \<Longrightarrow> job_outline c e (jobs_rest c e) (act (on_io (emit (Nvs_write Security_fs x y))) p)"
    "job_outline c e (jobs_rest c e) p \<Longrightarrow> job_outline c e (jobs_rest c e) (act (set_status z) p)"
    "job_outline c e (jobs_rest c e) p \<Longrightarrow> job_outline c e (jobs_rest c e) (act (set_counter h) p)" for p x y z h
    by (rule job_plain; simp)+
  have seed: "job_outline c e (jobs_rest c e) (seed_prog c e 0x27 k len)" for k
    unfolding seed_prog_def Let_def
    by (intro outline_if job_nrc job_choice job_Act [where B = "\<lambda>_. jobs_rest c e"] job_plain job_seed_answer)
      (simp_all add: jobs_rest_io)
  have granted: "job_outline c e (jobs_rest c e) (granted_prog 0x27 k)" for k
    unfolding granted_prog_def by (intro plain job_answer job_poll) simp
  have rejected: "job_outline c e (jobs_rest c e) (rejected_prog c 0x27)"
    unfolding rejected_prog_def by (intro job_choice plain job_plain job_nrc) simp_all
  have key: "job_outline c e (jobs_rest c e) (key_prog c e req 0x27 k len)" for k
    unfolding key_prog_def Let_def
    by (intro outline_if job_nrc job_choice job_Act [where B = "\<lambda>_. jobs_rest c e"] granted rejected)
      (simp_all add: jobs_rest_io)
  show ?thesis
    unfolding security_prog_def Let_def assms
    by (intro outline_if job_nrc job_choice seed key) simp_all
qed

subsection \<open>A start of a routine\<close>

text \<open>Each statement moves the job one place further; the last one submits it.\<close>

lemma wq_set [simp]: "wq (set_routine g s) = wq s" "wq (set_clear h s) = wq s"
  by (simp_all add: set_defs)

lemma other_work [simp]:
  "clear_rest (set_routine g s) = clear_rest s" "routine_rest (set_clear h s) = routine_rest s"
  by (simp_all add: clear_rest_def clear_place_def clear_busy_def clear_busy_exact_def routine_rest_def routine_place_def
      routine_busy_def set_defs)

lemma rest_io:
  "scan Clear_dtc_work (trace (f (io_st s))) = scan Clear_dtc_work (tr s) \<Longrightarrow> clear_rest (on_io f s) = clear_rest s"
  "scan Routine_work (trace (f (io_st s))) = scan Routine_work (tr s) \<Longrightarrow> routine_rest (on_io f s) = routine_rest s"
  by (simp_all add: clear_rest_def clear_place_def clear_busy_def routine_rest_def routine_place_def routine_busy_def
      clear_busy_exact_def job_held_def scan_def job_ok_def)

lemma services_io [simp]: "services_stored (on_io f s) = services_stored s"
  by (simp add: services_stored_def)

lemma routine_statement:
  assumes "\<And>s. R s \<Longrightarrow> R' (set_routine g s)" "\<And>rs. stored_routine_sid rs = 0x31 \<Longrightarrow> stored_routine_sid (g rs) = 0x31"
    and "fit e Routine_work R" "job_outline c e (jobs_at c e R' clear_rest) p"
  shows "job_outline c e (jobs_at c e R clear_rest) (act (set_routine g) p)"
  using assms(1,2)
  by (intro job_act [OF assms(3) fit_places(4) _ assms(4)]) (simp add: jobs_at_def services_stored_def, simp add: set_defs)

lemmas place_statement = routine_statement [OF _ _ fit_places(1)]

lemma job_start: "job_outline c e (jobs_at c e (routine_place False False False) clear_rest) (start_prog 0x31 d)"
proof -
  have submit: "job_outline c e (jobs_at c e (routine_place True True True) clear_rest)
      (act (on_io (emit (K_work_submit Routine_work))) Poll)"
  proof (rule job_act [OF fit_places(1,4) _ job_poll])
    fix s assume "jobs_at c e (routine_place True True True) clear_rest s"
    then show "jobs_rest c e (on_io (emit (K_work_submit Routine_work)) s) \<and>
        rx_gives s (on_io (emit (K_work_submit Routine_work)) s)"
      by (simp add: jobs_at_def rest_io scan_def)
        (auto simp: routine_rest_def routine_busy_def routine_place_def job_held_def job_ok_def)
  qed
  have arm: "job_outline c e (jobs_at c e (routine_place True False True) clear_rest)
      (act (on_io (emit (K_timer_start Routine_nrc78_timer 0 20))) (act (on_io (emit (K_work_submit Routine_work))) Poll))"
  proof (rule job_act [OF fit_places(1,4) _ submit])
    fix s assume "jobs_at c e (routine_place True False True) clear_rest s"
    then show "jobs_at c e (routine_place True True True) clear_rest (on_io (emit (K_timer_start Routine_nrc78_timer 0 20)) s) \<and>
        rx_gives s (on_io (emit (K_timer_start Routine_nrc78_timer 0 20)) s)"
      by (simp add: jobs_at_def rest_io scan_def) (auto simp: routine_place_def job_held_def job_ok_def)
  qed
  show ?thesis
    unfolding start_prog_def UDS_ROUTINE_NRC78_PERIOD_MS_def
    apply (rule place_statement [where R' = "routine_place False False False"], simp add: routine_place_def, simp)
    apply (rule place_statement [where R' = "routine_place True False False"], simp add: routine_place_def, simp)
    apply (rule place_statement [where R' = "routine_place True False True"], simp add: routine_place_def, simp)
    apply (rule place_statement [where R' = "routine_place True False True"], simp add: routine_place_def, simp)
    apply (rule place_statement [where R' = "routine_place True False True", OF _ _ arm], simp add: routine_place_def, simp)
    done
qed

lemma job_routine:
  assumes "req ! 0 = 0x31"
  shows "job_outline c e (jobs_rest c e) (routine_prog e req len)"
proof -
  let ?idle = "jobs_at c e (routine_place False False False) clear_rest"
  have free: "jobs_rest c e s \<Longrightarrow> \<not> erase_routine_status (routine_st s) = ROUTINE_RUNNING \<Longrightarrow> ?idle s" for s
    by (simp add: jobs_at_def routine_rest_def routine_busy_def)
  have start: "job_outline c e (jobs_rest c e) (ask (\<lambda>s. erase_routine_status (routine_st s) = ROUTINE_RUNNING)
      (nrc_prog 0x31 UDS_NRC_CONDITIONS_NOT_CORRECT) (start_prog 0x31 d))" for d
    by (rule outline_ask [where B = "jobs_rest c e" and B' = ?idle])
      (use free in \<open>auto intro: jobs_stable jobs_sound fit_places job_start job_nrc\<close>)
  have answer: "job_outline c e (jobs_rest c e) (act (on_io (uds_send_response [0x71, k, x, y, st, ex] 6)) Poll)" for k x y st ex
    by (intro job_plain job_poll) (simp add: scan_def pending_frame_def all_work)
  have results: "job_outline c e (jobs_rest c e) (Act (on_io (emit (App_routine_request_results d)))
      (\<lambda>s. case uds_app_routine_request_results (app e) (tr s) d 0 0 of (ret, st, ex) \<Rightarrow>
        if ret \<noteq> 0 then nrc_prog 0x31 UDS_NRC_REQUEST_OUT_OF_RANGE
        else act (on_io (call_send Uds_send_response [0x31 + 0x40, k, x, y, st, ex] 6)) Poll))" for d k x y
    by (rule job_Act [where B = "\<lambda>_. jobs_rest c e"]) (simp add: jobs_rest_io, simp add: case_prod_beta job_nrc answer)
  show ?thesis
    unfolding routine_prog_def Let_def assms
    by (intro outline_if job_poll job_nrc job_choice start results) simp_all
qed

subsection \<open>A clear request\<close>

lemma clear_statement:
  assumes "\<And>s. C s \<Longrightarrow> C' (set_clear h s)" "\<And>cs. stored_sid cs = 0x14 \<Longrightarrow> stored_sid (h cs) = 0x14"
    and "fit e Clear_dtc_work C" "job_outline c e (jobs_at c e routine_rest C') p"
  shows "job_outline c e (jobs_at c e routine_rest C) (act (set_clear h) p)"
  using assms(1,2)
  by (intro job_act [OF fit_places(2) assms(3) _ assms(4)]) (simp add: jobs_at_def services_stored_def, simp add: set_defs)

lemmas clear_place_statement = clear_statement [OF _ _ fit_places(3)]

lemma job_clear:
  assumes "req ! 0 = 0x14"
  shows "job_outline c e (jobs_rest c e) (clear_prog e req len)"
proof -
  have submit: "job_outline c e (jobs_at c e routine_rest (clear_place True True True))
      (act (on_io (emit (K_work_submit Clear_dtc_work))) Poll)"
  proof (rule job_act [OF fit_places(2,3) _ job_poll])
    fix s assume "jobs_at c e routine_rest (clear_place True True True) s"
    then show "jobs_rest c e (on_io (emit (K_work_submit Clear_dtc_work)) s) \<and>
        rx_gives s (on_io (emit (K_work_submit Clear_dtc_work)) s)"
      by (simp add: jobs_at_def rest_io scan_def)
        (auto simp: clear_rest_def clear_busy_def clear_place_def clear_busy_exact_def job_held_def job_ok_def)
  qed
  have arm: "job_outline c e (jobs_at c e routine_rest (clear_place True False True))
      (act (on_io (emit (K_timer_start Clear_nrc78_timer 20 0))) (act (on_io (emit (K_work_submit Clear_dtc_work))) Poll))"
  proof (rule job_act [OF fit_places(2,3) _ submit])
    fix s assume "jobs_at c e routine_rest (clear_place True False True) s"
    then show "jobs_at c e routine_rest (clear_place True True True) (on_io (emit (K_timer_start Clear_nrc78_timer 20 0)) s) \<and>
        rx_gives s (on_io (emit (K_timer_start Clear_nrc78_timer 20 0)) s)"
      by (simp add: jobs_at_def rest_io scan_def) (auto simp: clear_place_def clear_busy_exact_def job_held_def job_ok_def)
  qed
  have hand_over: "job_outline c e (jobs_at c e routine_rest (clear_place False False False))
      (act (set_clear (\<lambda>cs. cs\<lparr>target_dtc_group := d\<rparr>))
      (act (set_clear (\<lambda>cs. cs\<lparr>stored_send_cb := Some Uds_send_response\<rparr>))
      (act (set_clear (\<lambda>cs. cs\<lparr>stored_nrc_cb := Some Uds_send_nrc\<rparr>))
      (act (set_clear (\<lambda>cs. cs\<lparr>stored_sid := 0x14\<rparr>))
      (act (set_clear (\<lambda>cs. cs\<lparr>worker_done := False\<rparr>))
      (act (on_io (emit (K_timer_start Clear_nrc78_timer UDS_NRC78_PERIOD_MS 0)))
      (act (on_io (emit (K_work_submit Clear_dtc_work))) Poll)))))))" for d
    unfolding UDS_NRC78_PERIOD_MS_def
    apply (rule clear_place_statement [where C' = "clear_place False False False"], simp add: clear_place_def clear_busy_exact_def, simp)
    apply (rule clear_place_statement [where C' = "clear_place False False True"], simp add: clear_place_def clear_busy_exact_def, simp)
    apply (rule clear_place_statement [where C' = "clear_place False False True"], simp add: clear_place_def clear_busy_exact_def, simp)
    apply (rule clear_place_statement [where C' = "clear_place False False True"], simp add: clear_place_def clear_busy_exact_def, simp)
    apply (rule clear_place_statement [where C' = "clear_place True False True", OF _ _ arm], simp add: clear_place_def clear_busy_exact_def, simp)
    done
  have free: "jobs_rest c e s \<Longrightarrow> \<not> k_work_is_pending e (tr s) Clear_dtc_work \<Longrightarrow>
      jobs_at c e routine_rest (clear_place False False False) s" for s
    by (auto simp: jobs_at_def clear_rest_def clear_busy_def clear_busy_exact_def job_held_def serving_def pending_exact_def
        split: wq_phase.splits)
  have asked: "jobs_at c e routine_rest (clear_place False False False) s \<Longrightarrow>
      jobs_at c e routine_rest (clear_place False False False) (on_io (emit (K_work_is_pending w)) s)" for s w
    by (rule same_jobs_at [where s = s, OF _ _ _ fit_places(2,3)]) (simp_all add: jobs_at_def)
  have check: "job_outline c e (jobs_rest c e) (Act (on_io (emit (K_work_is_pending Clear_dtc_work)))
      (\<lambda>s. if k_work_is_pending e (tr s) Clear_dtc_work then p else q))"
    if "job_outline c e (jobs_rest c e) p"
      "job_outline c e (jobs_at c e routine_rest (clear_place False False False)) q" for p q
    by (rule job_Act [where B = "\<lambda>s. if k_work_is_pending e (tr s) Clear_dtc_work then jobs_rest c e
          else jobs_at c e routine_rest (clear_place False False False)"])
      (simp_all add: jobs_rest_io free asked that)
  show ?thesis
    unfolding clear_prog_def Let_def assms
    by (intro outline_if job_nrc check hand_over) simp_all
qed

subsection \<open>The other services\<close>

lemma jobs_buffer: "jobs_at c e R C s \<Longrightarrow> uds_tx_buf (io_st s) \<noteq> []"
  using kconfig_buff [of c] by (auto simp: jobs_at_def buffers_ok_def)

lemma served_same_jobs:
  assumes "served sid (io_st s) (io_st t)" "sid \<notin> {0x31, 0x14, 0x3F}"
    and "routine_st t = routine_st s" "clear_st t = clear_st s" "wq t = wq s"
  shows "same_jobs s t"
proof -
  have "sid \<noteq> work_service w" for w using assms(2) by (cases w) simp_all
  then show ?thesis using assms served_ignores [OF assms(1) ignores_scan(2)] by (simp add: same_jobs_def)
qed

lemma job_guard:
  assumes "\<And>ses ss s. uds_tx_buf (io_st s) \<noteq> [] \<Longrightarrow> served sid (io_st s) (io_st (f ses ss s)) \<and>
      routine_st (f ses ss s) = routine_st s \<and> clear_st (f ses ss s) = clear_st s \<and> wq (f ses ss s) = wq s \<and>
      periodic_st (f ses ss s) = periodic_st s \<and> uds_rx_buf (f ses ss s) = uds_rx_buf s"
    and "sid \<notin> {0x31, 0x14, 0x3F}"
  shows "job_outline c e (jobs_rest c e) (guard_prog f)"
proof -
  have "job_outline c e (jobs_rest c e) (act (f ses ss) Poll)" for ses ss
  proof (rule job_plain [OF _ job_poll])
    fix s assume s: "jobs_rest c e s" "buffers_ok c s"
    from assms(1) [OF jobs_buffer [OF s(1)], of ses ss] s(2) served_same_jobs [OF _ assms(2), of s "f ses ss s"]
    show "buffers_ok c (f ses ss s) \<and> same_jobs s (f ses ss s) \<and> rx_gives s (f ses ss s)"
      by (auto simp: buffers_ok_def rx_gives_def served_queue) (simp_all add: served_def)
  qed
  then show ?thesis
    unfolding guard_prog_def by (intro job_Act [where B = "\<lambda>_. jobs_rest c e"]) simp_all
qed

lemma job_guarded:
  "req ! 0 = 0x2E \<Longrightarrow> job_outline c e (jobs_rest c e)
     (guard_prog (\<lambda>ses ss. on_io (uds_write_did_handle e' ses ss send nrc req len)))"
  "req ! 0 = 0x2F \<Longrightarrow> job_outline c e (jobs_rest c e)
     (guard_prog (\<lambda>ses ss. on_io (uds_handle_io_control e' ses ss send nrc req len)))"
  "req ! 0 = 0x34 \<Longrightarrow> job_outline c e (jobs_rest c e)
     (guard_prog (\<lambda>ses ss. on_flash (uds_handle_request_download c' e' ses ss send nrc req len)))"
proof -
  show "req ! 0 = 0x2E \<Longrightarrow> job_outline c e (jobs_rest c e)
      (guard_prog (\<lambda>ses ss. on_io (uds_write_did_handle e' ses ss send nrc req len)))"
    using wdid.serves [of _ req e' _ _ send nrc len "()"] by (intro job_guard [where sid = "0x2E"]) simp_all
  show "req ! 0 = 0x2F \<Longrightarrow> job_outline c e (jobs_rest c e)
      (guard_prog (\<lambda>ses ss. on_io (uds_handle_io_control e' ses ss send nrc req len)))"
    using ioc.serves [of _ req e' _ _ send nrc len "()"] by (intro job_guard [where sid = "0x2F"]) simp_all
  show "req ! 0 = 0x34 \<Longrightarrow> job_outline c e (jobs_rest c e)
      (guard_prog (\<lambda>ses ss. on_flash (uds_handle_request_download c' e' ses ss send nrc req len)))"
    using rdl.serves [of _ req c' e' _ _ send nrc len] by (intro job_guard [where sid = "0x34"]) simp_all
qed

lemma job_periodic_request: "job_outline c e (jobs_rest c e) (periodic_request_prog req len)"
proof -
  let ?room = "\<lambda>s. jobs_rest c e s \<and> unat (active_did_count (periodic_st s)) < 5"
  let ?store = "set_periodic (\<lambda>ps. ps\<lparr>active_periodic_dids := (active_periodic_dids ps)[unat (active_did_count ps) := req ! 2]\<rparr>)"
  let ?count = "set_periodic (\<lambda>ps. ps\<lparr>active_did_count := active_did_count ps + 1\<rparr>)"
  have send: "job_outline c e (jobs_rest c e) (act (on_io (call_send Uds_send_response (0x6A # d) n)) Poll)" if "0 < n" for d n
    using that by (intro job_plain job_poll) (cases n; simp add: scan_frame)
  have set: "jobs_rest c e (set_periodic f s)" if "jobs_rest c e s" "periodic_inv (f (periodic_st s))" for f s
    by (rule same_jobs_at [where s = s, OF _ _ _ fit_places(2,4)]) (use that in \<open>simp_all add: jobs_at_def\<close>)
  have inv: "jobs_rest c e s \<Longrightarrow> periodic_inv (periodic_st s)" for s by (simp add: jobs_at_def buffers_ok_def)
  have "beside_jobs c e s t \<Longrightarrow> jobs_rest c e s \<Longrightarrow> active_did_count (periodic_st t) = active_did_count (periodic_st s)" for s t
    using background_periodic [of e s t] by (auto simp: beside_jobs_def jobs_at_def)
  then have st: "stable (beside_jobs c e) ?room"
    using jobs_stable [OF fit_places(2,4), of c e] by (auto simp: stable_def)
  have count: "job_outline c e ?room (act ?count (act (on_io (call_send Uds_send_response (0x6A # d) n)) Poll))" if "0 < n" for d n
  proof (rule outline_act [OF st _ _ send [OF that]])
    fix s assume s: "?room s"
    then have "unat (active_did_count (periodic_st s) + 1) = Suc (unat (active_did_count (periodic_st s)))"
      by (intro unat_counter_Suc) simp
    then show "jobs_rest c e (?count s) \<and> rx_gives s (?count s)"
      using s inv [of s] by (simp add: set periodic_inv_def)
  qed (auto intro: jobs_sound fit_places)
  have store: "job_outline c e ?room (act ?store (act ?count (act (on_io (call_send Uds_send_response (0x6A # d) n)) Poll)))" if "0 < n" for d n
  proof (rule outline_act [OF st _ _ count [OF that]])
    fix s assume s: "?room s"
    then show "?room (?store s) \<and> rx_gives s (?store s)"
      using inv [of s] by (simp add: set periodic_inv_def)
  qed (auto intro: jobs_sound fit_places)
  have start: "job_outline c e (jobs_rest c e) (ask (\<lambda>s. active_did_count (periodic_st s) \<ge> 5) (nrc_prog sid UDS_NRC_REQUEST_OUT_OF_RANGE)
      (act ?store (act ?count (act (on_io (call_send Uds_send_response (0x6A # d) n)) Poll))))" if "0 < n" for sid d n
    by (rule outline_ask [where B = "jobs_rest c e" and B' = ?room, OF jobs_stable [OF fit_places(2,4)] _ _ _ job_nrc _ store [OF that]])
      (auto intro: jobs_sound fit_places simp: word_le_nat_alt)
  have stop: "job_outline c e (jobs_rest c e) (act (set_periodic (\<lambda>ps. ps\<lparr>active_did_count := 0\<rparr>))
      (act (on_io (call_send Uds_send_response (0x6A # d) n)) Poll))" if "0 < n" for d n
    by (rule job_plain [OF _ send [OF that]]) (use inv in \<open>simp add: periodic_inv_def\<close>)
  have keep: "job_outline c e (jobs_rest c e) p \<Longrightarrow>
      job_outline c e (jobs_rest c e) (act (set_periodic (\<lambda>ps. ps\<lparr>periodic_send_cb := Some Uds_send_response\<rparr>)) p)" for p
    by (rule job_plain) (use inv in \<open>simp_all add: periodic_inv_def\<close>)
  show ?thesis
    unfolding periodic_request_prog_def Let_def
    by (intro keep outline_if job_nrc stop start job_poll) simp_all
qed

lemma job_dispatch:
  assumes "req ! 0 \<notin> {0x31, 0x14, 0x2A}"
  shows "job_outline c e (jobs_rest c e) (act (uds_dispatch c e' req len a) Poll)"
proof (rule job_plain [OF _ job_poll])
  fix s assume s: "jobs_rest c e s" "buffers_ok c s"
  note served = dispatch_served [OF jobs_buffer [OF s(1)], of req c e' len a]
  have "same_jobs s (uds_dispatch c e' req len a s)"
  proof (cases "req ! 0 = 0x3F")
    case True
    then have "uds_dispatch c e' req len a s = on_io (uds_send_nrc 0x3F UDS_NRC_SERVICE_NOT_SUPPORTED) s"
      by (simp add: uds_dispatch_def Let_def)
    then show ?thesis by simp
  next
    case False
    then show ?thesis using assms by (intro served_same_jobs [OF served]) (simp_all add: dispatch_routine dispatch_clear)
  qed
  then show "buffers_ok c (uds_dispatch c e' req len a s) \<and> same_jobs s (uds_dispatch c e' req len a s) \<and>
      rx_gives s (uds_dispatch c e' req len a s)"
    using s(2) served assms by (simp add: buffers_ok_def rx_gives_def served_queue dispatch_periodic) (simp add: served_def)
qed

lemma job_request: "job_outline c e (jobs_rest c e) (request_prog c e req len a)"
proof -
  have "job_outline c e (jobs_rest c e) (service_prog c e req len a)"
    by (simp add: service_prog_def Let_def job_session job_security job_guarded job_reset job_clear job_routine
        job_periodic_request job_dispatch)
  then show ?thesis
    unfolding request_prog_def by (intro outline_if job_poll job_plain job_refresh) simp_all
qed

section \<open>The outlines of the periodic thread\<close>

text \<open>It leaves the jobs alone because its frames start with 0x2A, which nobody else overwrites in its buffer.\<close>

definition sample_relies :: "kconfig \<Rightarrow> system \<Rightarrow> system \<Rightarrow> bool" where
  "sample_relies c s t \<longleftrightarrow> (buffers_ok c s \<longrightarrow> buffers_ok c t) \<and> periodic_tx_buf (periodic_st t) = periodic_tx_buf (periodic_st s)"

definition sample_gives :: "kconfig \<Rightarrow> system \<Rightarrow> system \<Rightarrow> bool" where
  "sample_gives c s t \<longleftrightarrow> work_queue (tr t) = work_queue (tr s) \<and> (buffers_ok c s \<longrightarrow> buffers_ok c t \<and> same_jobs s t \<and>
     uds_tx_buf (io_st t) = uds_tx_buf (io_st s) \<and> active_did_count (periodic_st t) = active_did_count (periodic_st s))"

definition sample_headed :: "kconfig \<Rightarrow> system \<Rightarrow> bool" where
  "sample_headed c s \<longleftrightarrow> buffers_ok c s \<and> periodic_tx_buf (periodic_st s) ! 0 = 0x2A"

abbreviation sample_outline :: "kconfig \<Rightarrow> (system \<Rightarrow> bool) \<Rightarrow> system prog \<Rightarrow> bool" where
  "sample_outline c \<equiv> outline (sample_relies c) (sample_gives c) (buffers_ok c) (buffers_ok c)"

lemma sample_stable: "stable (sample_relies c) (buffers_ok c)" "stable (sample_relies c) (sample_headed c)"
  by (auto simp: stable_def sample_relies_def sample_headed_def)

lemma sample_gives_refl [simp]: "sample_gives c s s"
  by (simp add: sample_gives_def same_jobs_def)

lemma job_sample:
  assumes p: "sample_outline c (buffers_ok c) p"
  shows "sample_outline c (buffers_ok c) (sample_prog e k p)"
proof -
  have len: "buffers_ok c s \<Longrightarrow> length (periodic_tx_buf (periodic_st s)) = 16" for s
    by (simp add: buffers_ok_def periodic_inv_def)
  have filled: "buffers_ok c s \<Longrightarrow> periodic_tx_buf (periodic_st s) \<noteq> []" for s using len [of s] by auto
  have send: "sample_outline c (sample_headed c) (act send_sample p)"
  proof (rule outline_act [OF sample_stable(2) _ _ p])
    fix s assume s: "sample_headed c s"
    let ?f = "take (2 + data_len (periodic_st s)) (periodic_tx_buf (periodic_st s))"
    have "periodic_tx_buf (periodic_st s) \<noteq> []" using s filled by (simp add: sample_headed_def)
    then have "?f \<noteq> []" "hd ?f = 0x2A" using s by (simp_all add: sample_headed_def hd_conv_nth)
    then have "scan w (Isotp_send ?f # tr s) = scan w (tr s)" for w by (simp add: scan_frame)
    then show "buffers_ok c (send_sample s) \<and> sample_gives c s (send_sample s)"
      using s by (auto simp: send_sample_def sample_gives_def sample_headed_def split: option.split send_cb.split)
  qed (simp add: sample_headed_def)
  have stop: "sample_outline c (sample_headed c) p"
    by (rule outline_weaken [OF p sample_stable(2)]) (simp add: sample_headed_def)
  have hook: "sample_outline c (sample_headed c) (Act (hook_call e k) (\<lambda>s. if b s then act send_sample p else p))" for b
  proof (rule outline.act [OF sample_stable(2), where B = "\<lambda>_. sample_headed c"])
    fix s assume "sample_headed c s"
    then show "sample_headed c (hook_call e k s) \<and> sample_gives c s (hook_call e k s)"
      by (simp add: sample_headed_def sample_gives_def)
        (simp add: hook_call_def Let_def case_prod_beta same_jobs_def buffers_ok_def)
  qed (simp_all add: sample_headed_def send stop)
  let ?label = "\<lambda>s. on_io (fault_if (length (active_periodic_dids (periodic_st s)) \<le> k))
    (set_periodic (\<lambda>ps. ps\<lparr>periodic_tx_buf := buf_put 1 [active_periodic_dids ps ! k] (periodic_tx_buf ps)\<rparr>) s)"
  have label: "sample_outline c (sample_headed c) (act ?label (Act (hook_call e k) (\<lambda>s. if b s then act send_sample p else p)))" for b
    by (rule outline_act [OF sample_stable(2) _ _ hook])
      (simp_all add: sample_headed_def sample_gives_def buffers_ok_def periodic_inv_def same_jobs_def, simp_all add: set_defs)
  show ?thesis
    unfolding sample_prog_def
    by (rule outline_act [OF sample_stable(1) _ _ label])
      (use filled in \<open>simp_all add: sample_headed_def sample_gives_def\<close>, simp add: buffers_ok_def periodic_inv_def)
qed

lemma job_round: "sample_outline c (buffers_ok c) (round_prog e)"
proof -
  have poll: "sample_outline c (buffers_ok c) Poll" by (rule outline.poll)
  have choice: "sample_outline c (buffers_ok c) p \<Longrightarrow> sample_outline c (buffers_ok c) q \<Longrightarrow>
      sample_outline c (buffers_ok c) (ask b p q)" for b p q
    by (rule outline_ask [where B = "buffers_ok c" and B' = "buffers_ok c"]) (simp_all add: sample_stable)
  have loop: "sample_outline c (buffers_ok c) (loop_prog e ks)" for ks
    by (induction ks) (simp_all add: poll choice job_sample)
  show ?thesis
    unfolding round_prog_def
    by (rule outline_act [OF sample_stable(1) _ _ choice [OF poll loop]]) (simp_all add: sample_gives_def)
qed

section \<open>Every interleaving\<close>

lemma init_event_pending: "\<forall>ev \<in> set evs. init_event c ev \<Longrightarrow> pending_in_time w evs"
proof (induction evs)
  case (Cons ev evs) then show ?case by (cases ev) auto
qed simp

lemma jobs_boot:
  assumes "fst (uds_init c e (system_0 c)) = 0" "kconfig_ok c" "pending_exact e"
  shows "jobs_rest c e (booted c e)"
proof -
  note b = boot_trace [OF assms(1)]
  have ok: "job_ok w (tr (booted c e))" "\<not> awaited w (tr (booted c e))" "\<not> work_busy w (tr (booted c e))" "work_queue (tr (booted c e)) = []" "timer_mode (job_timer w) (tr (booted c e)) = None" for w
    using boot_job [OF b, of w] boot_work [OF b, of w] boot_timer_other [OF b, of "job_timer w"] init_event_pending [OF b, of w]
    by (cases w; simp add: job_ok_def job_trace_def)+
  show ?thesis
    using assms ok(1-4) ok(5) [of Routine_work] ok(5) [of Clear_dtc_work]
      reachable_buffers [OF reachable.boot [OF assms(1)] assms(2)]
    by (simp add: jobs_at_def routine_rest_def routine_place_def clear_rest_def clear_place_def clear_busy_exact_def job_held_def services_stored_def
        booted_sel [OF assms(1)] routine_state_0_def clear_state_0_def)
qed

lemma jobs_polled: "length buf = length (uds_rx_buf s) \<Longrightarrow> jobs_rest c e s \<Longrightarrow> jobs_rest c e (polled l buf s)"
  by (rule same_jobs_at [where s = s, OF _ _ _ fit_places(2,4)]) (simp_all add: same_jobs_def jobs_at_def buffers_ok_def)

lemma polled_sample: "length buf = length (uds_rx_buf s) \<Longrightarrow> sample_relies c s (polled l buf s)"
  by (simp add: sample_relies_def buffers_ok_def)

lemma background_beside: "background e s t \<Longrightarrow> beside_jobs c e s t \<and> sample_relies c s t"
  by (simp add: beside_jobs_def sample_relies_def background_buffers background_periodic)

interpretation jobs: outlined_module "beside_jobs c e" rx_gives "sample_relies c" "sample_gives c"
    "jobs_good c" "jobs_rest c e" "buffers_ok c" "buffers_ok c" c e for c e
proof
  show "stable (beside_jobs c e) (jobs_rest c e)" by (rule jobs_stable [OF fit_places(2,4)])
  show "jobs_rest c e s \<Longrightarrow> jobs_good c s" for s by (rule jobs_sound [OF fit_places(2,4)])
  show "rx_gives s t \<Longrightarrow> jobs_good c s \<Longrightarrow> jobs_good c t \<Longrightarrow> sample_relies c s t" for s t
    by (simp add: sample_relies_def jobs_good_def rx_gives_def)
  show "sample_gives c s t \<Longrightarrow> buffers_ok c s \<Longrightarrow> buffers_ok c t \<Longrightarrow> beside_jobs c e s t" for s t
    by (simp add: sample_gives_def beside_jobs_def)
qed (auto intro: sample_stable background_beside [THEN conjunct1] background_beside [THEN conjunct2] jobs_polled polled_sample job_request job_round)

lemma jobs_held:
  assumes "threads_reach c e s p q" "kconfig_ok c" "pending_exact e"
  shows "jobs.both_held c e s p q"
proof (rule jobs.reach_held [OF assms(1)])
  have "fst (uds_init c e (system_0 c)) = 0" using assms(1) by induction
  from jobs_boot [OF this assms(2,3)] show "jobs.first.held c e (booted c e) (bind_prog c e)" "buffers_ok c (booted c e)"
    by (auto intro: jobs.first.heldI [OF job_bind] simp: jobs_at_def)
qed

end
