(* ===== verification/Uds_Fairness.thy ===== *)
theory Uds_Fairness
  imports Uds_Interleaved_Jobs
begin

text \<open>
  Endless interleavings. A job that is accepted is answered: its item keeps its place in the queue whatever the threads
  submit, the handlers before it come to an end, and its own handler sends the result. All that is asked of the
  scheduler is that the work queue is not starved.
\<close>

section \<open>Progress by a rank\<close>

text \<open>
  \<open>D\<close> waits for \<open>Goal\<close>: other steps keep it and its rank, a helpful step decreases the rank or reaches the goal,
  and helpful steps keep coming.
\<close>

lemma leads_to_by_rank:
  fixes D :: "nat \<Rightarrow> bool" and rank :: "nat \<Rightarrow> nat"
  assumes fair: "\<And>n. D n \<Longrightarrow> \<exists>m\<ge>n. helpful m"
    and kept: "\<And>n. D n \<Longrightarrow> \<not> helpful n \<Longrightarrow> D (Suc n) \<and> rank (Suc n) = rank n"
    and progress: "\<And>n. D n \<Longrightarrow> helpful n \<Longrightarrow> Goal n \<or> D (Suc n) \<and> rank (Suc n) < rank n"
    and "D n"
  shows "\<exists>m\<ge>n. Goal m"
  using assms(4)
proof (induction "rank n" arbitrary: n rule: less_induct)
  case less
  define m where "m = (LEAST m. n \<le> m \<and> helpful m)"
  have m: "n \<le> m" "helpful m"
    unfolding m_def using fair [OF less.prems] by (metis (mono_tags, lifting) LeastI_ex)+
  have "n + i \<le> m \<longrightarrow> D (n + i) \<and> rank (n + i) = rank n" for i
  proof (induction i)
    case (Suc i)
    have "\<not> helpful (n + i)" if "n + Suc i \<le> m"
      using not_less_Least [of "n + i" "\<lambda>m. n \<le> m \<and> helpful m"] that by (simp add: m_def)
    with Suc kept [of "n + i"] show ?case by (metis Suc_leD add_Suc_right)
  qed (use less.prems in simp)
  from this [of "m - n"] have "D m" "rank m = rank n" using m(1) by simp_all
  with progress [OF _ m(2)] consider "Goal m" | "D (Suc m)" "rank (Suc m) < rank n" by auto
  then show ?case
  proof cases
    case 2
    then obtain k where "Suc m \<le> k" "Goal k" using less.hyps [of "Suc m"] by blast
    then show ?thesis using m(1) by (intro exI [of _ k]) simp
  qed (use m(1) in blast)
qed

section \<open>The steps of the work queue\<close>

inductive queue_step :: "env \<Rightarrow> system \<Rightarrow> system \<Rightarrow> bool" for e where
  routine_begin: "wq s = Wq_idle \<Longrightarrow> work_queue (tr s) = Routine_work # ws \<Longrightarrow> queue_step e s (routine_begin e s)"
| routine_end: "wq s = Wq_routine_hook ret app_info \<Longrightarrow> queue_step e s (routine_end ret app_info s)"
| clear_begin: "wq s = Wq_idle \<Longrightarrow> work_queue (tr s) = Clear_dtc_work # ws \<Longrightarrow> queue_step e s (clear_begin e s)"
| clear_done: "wq s = Wq_clear_hook \<Longrightarrow> queue_step e s (clear_done s)"
| clear_end: "wq s = Wq_clear_sleep \<Longrightarrow> queue_step e s (clear_end s)"
| work_return: "wq s = Wq_sent w \<Longrightarrow> queue_step e s (work_return w s)"

text \<open>A step that leaves the handlers alone, and what waits in its order.\<close>

definition queue_kept :: "system \<Rightarrow> system \<Rightarrow> bool" where
  "queue_kept s t \<longleftrightarrow> wq t = wq s \<and> prefix (work_queue (tr s)) (work_queue (tr t))"

lemma queue_kept_refl [simp]: "queue_kept s s"
  by (simp add: queue_kept_def)

lemma background_queue: "background e s t \<longleftrightarrow> queue_step e s t \<or> background e s t \<and> queue_kept s t"
proof
  assume b: "background e s t"
  then show "queue_step e s t \<or> background e s t \<and> queue_kept s t"
  proof cases
    case s3 then show ?thesis using b by (simp add: queue_kept_def)
  next
    case lockout then show ?thesis using b by (simp add: queue_kept_def)
  next
    case reset then show ?thesis using b by (simp add: queue_kept_def)
  next
    case routine_tick then show ?thesis using b by (simp add: queue_kept_def split: option.split)
  next
    case clear_tick then show ?thesis using b by (simp add: queue_kept_def split: option.split)
  qed (simp only:; blast intro: queue_step.intros)+
qed (auto elim!: queue_step.cases intro: background.intros)

lemma preempted_queue:
  assumes "preempted c e (s, p, q) (t, p', q')" "jobs.both_held c e s p q"
  shows "queue_step e s t \<or> queue_kept s t"
proof -
  have held: "jobs.first.held c e s p" "jobs.second.held c s q"
    using assms(2) by (simp_all only: jobs.both_held_def)
  from assms(1) show ?thesis
  proof cases
    case other
    then show ?thesis using background_queue by blast
  next
    case (rx_action f g)
    then show ?thesis using jobs.first.held_action held(1) by (auto simp: rx_gives_def queue_kept_def)
  next
    case (periodic_action f g)
    have "buffers_ok c s" using jobs.second.held_good [OF held(2)] .
    then show ?thesis
      using jobs.second.held_action held(2) periodic_action by (auto simp: sample_gives_def same_jobs_def queue_kept_def)
  qed (simp_all add: queue_kept_def)
qed

section \<open>Every accepted job comes closer to its result\<close>

text \<open>How many steps a handler needs to return, and how many the queue needs before it has sent the result of an item.\<close>

fun phase_rank :: "wq_phase \<Rightarrow> nat" where
  "phase_rank Wq_idle = 0"
| "phase_rank (Wq_sent w) = 1"
| "phase_rank (Wq_routine_hook ret info) = 2"
| "phase_rank Wq_clear_sleep = 2"
| "phase_rank Wq_clear_hook = 3"

definition waiting_rank :: "work \<Rightarrow> system \<Rightarrow> nat" where
  "waiting_rank w s =
     (if serving (wq s) = Some w then phase_rank (wq s)
      else 4 + phase_rank (wq s) + 4 * length (takeWhile (\<lambda>w'. w' \<noteq> w) (work_queue (tr s))))"

definition due :: "work \<Rightarrow> system \<Rightarrow> bool" where
  "due w s \<longleftrightarrow> queued w (tr s) \<or> serving (wq s) = Some w"

definition result_sent :: "work \<Rightarrow> system \<Rightarrow> system \<Rightarrow> bool" where
  "result_sent w s t \<longleftrightarrow> (\<exists>f. final_frame w f \<and> frames (tr t) = f # frames (tr s)) \<and> \<not> awaited w (tr t)"

lemma due_awaited: "job_good w s \<Longrightarrow> due w s = awaited w (tr s)"
  by (simp add: job_good_def job_held_def due_def)

lemma kept_rank:
  assumes "queue_kept s t" "due w s"
  shows "due w t \<and> waiting_rank w t = waiting_rank w s"
proof -
  obtain ws where ws: "wq t = wq s" "work_queue (tr t) = work_queue (tr s) @ ws"
    using assms(1) by (auto simp: queue_kept_def prefix_def)
  show ?thesis
  proof (cases "serving (wq s) = Some w")
    case False
    then have "queued w (tr s)" using assms(2) by (simp add: due_def)
    then show ?thesis using False ws takeWhile_append1 [of w "work_queue (tr s)" "\<lambda>w'. w' \<noteq> w" ws]
      by (simp add: due_def waiting_rank_def)
  qed (use ws in \<open>simp add: due_def waiting_rank_def\<close>)
qed

lemma takeWhile_filter_other:
  "w' \<noteq> w \<Longrightarrow> length (takeWhile (\<lambda>x. x \<noteq> w) (filter (\<lambda>x. x \<noteq> w') xs)) \<le> length (takeWhile (\<lambda>x. x \<noteq> w) xs)"
  by (induction xs) auto

lemma begin_rank:
  assumes "wq s = Wq_idle" "work_queue (tr s) = w' # ws" "due w s"
    and "work_queue (tr t) = filter (\<lambda>x. x \<noteq> w') ws" "serving (wq t) = Some w'" "phase_rank (wq t) \<le> 3"
  shows "due w t \<and> waiting_rank w t < waiting_rank w s"
  using assms takeWhile_filter_other [of w' w ws] by (auto simp: due_def waiting_rank_def)

lemma queue_progress:
  assumes "queue_step e s t" "due w s" "job_good w s" "job_good w t"
  shows "result_sent w s t \<or> due w t \<and> waiting_rank w t < waiting_rank w s"
proof -
  have aw: "awaited w (tr s)" using assms(2,3) by (simp add: due_awaited)
  then have cb: "result_cb w s \<noteq> None" using assms(3) by (simp add: job_good_def)
  have sent: "result_sent w s t"
    if "tr t = Isotp_send f # evs @ tr s" "frames (evs @ tr s) = frames (tr s)" "awaited w (evs @ tr s) = awaited w (tr s)"
      "work_queue (tr t) = work_queue (tr s)" "serving (wq s) = Some w" "serving (wq t) = None" for f evs
  proof -
    have "\<not> due w t" using that(4-6) assms(3) by (simp add: due_def job_good_def job_held_def)
    then have "\<not> awaited w (tr t)" using assms(4) by (simp add: due_awaited)
    then show ?thesis using that aw by (simp add: result_sent_def)
  qed
  from assms(1) show ?thesis
  proof cases
    case (routine_begin ws)
    then show ?thesis by (intro disjI2 begin_rank [OF _ _ assms(2), of Routine_work ws]) (simp_all split: prod.split)
  next
    case (clear_begin ws)
    then show ?thesis by (intro disjI2 begin_rank [OF _ _ assms(2), of Clear_dtc_work ws]) (simp_all split: option.split)
  next
    case (routine_end ret info)
    show ?thesis
    proof (cases w)
      case Routine_work
      then obtain k where "stored_routine_send_cb (routine_st s) = Some k" using cb by auto
      then show ?thesis using routine_end Routine_work by (intro disjI1 sent [where evs = "[K_timer_stop Routine_nrc78_timer]"]) simp_all
    qed (use routine_end assms(2) in \<open>simp add: due_def waiting_rank_def split: option.split\<close>)
  next
    case clear_end
    show ?thesis
    proof (cases w)
      case Clear_dtc_work
      then obtain k where "stored_send_cb (clear_st s) = Some k" using cb by auto
      then show ?thesis using clear_end Clear_dtc_work by (intro disjI1 sent [where evs = "[]"]) simp_all
    qed (use clear_end assms(2) in \<open>simp add: due_def waiting_rank_def split: option.split\<close>)
  next
    case clear_done
    then show ?thesis using assms(2) by (simp add: due_def waiting_rank_def)
  next
    case (work_return w')
    then show ?thesis using assms(2) by (simp add: due_def waiting_rank_def)
  qed
qed

section \<open>Fair interleavings\<close>

text \<open>
  An endless run of the threads and of what runs beside them. It is fair to the work queue when the queue takes a step sooner or
  later whenever it has an item or a handler: no hook of the application hangs, and neither does a transmission.
\<close>

definition interleaving :: "kconfig \<Rightarrow> env \<Rightarrow> (nat \<Rightarrow> threads) \<Rightarrow> bool" where
  "interleaving c e r \<longleftrightarrow>
     (case r 0 of (s, p, q) \<Rightarrow> threads_reach c e s p q) \<and> (\<forall>n. preempted c e (r n) (r (Suc n)))"

definition queue_ready :: "system \<Rightarrow> bool" where
  "queue_ready s \<longleftrightarrow> wq s \<noteq> Wq_idle \<or> work_queue (tr s) \<noteq> []"

definition fair_to_queue :: "env \<Rightarrow> (nat \<Rightarrow> threads) \<Rightarrow> bool" where
  "fair_to_queue e r \<longleftrightarrow>
     (\<forall>n. queue_ready (fst (r n)) \<longrightarrow> (\<exists>m\<ge>n. queue_step e (fst (r m)) (fst (r (Suc m)))))"

lemma interleaving_reach: "interleaving c e r \<Longrightarrow> case r n of (s, p, q) \<Rightarrow> threads_reach c e s p q"
proof (induction n)
  case (Suc n)
  then have "preempted c e (r n) (r (Suc n))" by (simp add: interleaving_def)
  with Suc show ?case by (cases "r n"; cases "r (Suc n)") (auto intro: threads_reach.step)
qed (simp add: interleaving_def)

lemma interleaving_good:
  assumes "interleaving c e r" "kconfig_ok c" "pending_exact e"
  shows "jobs_good c (fst (r n))"
proof -
  obtain s p q where r: "r n = (s, p, q)" by (cases "r n")
  then have "threads_reach c e s p q" using interleaving_reach [OF assms(1), of n] by simp
  then have "jobs.first.held c e s p" using jobs_held [OF _ assms(2,3)] by (simp only: jobs.both_held_def)
  then show ?thesis using jobs.first.held_good r by simp
qed

lemma due_ready: "due w s \<Longrightarrow> queue_ready s"
  by (auto simp: due_def queue_ready_def)

lemma due_is_answered:
  assumes "interleaving c e r" "fair_to_queue e r" "kconfig_ok c" "pending_exact e" "due w (fst (r n))"
  shows "\<exists>m\<ge>n. result_sent w (fst (r m)) (fst (r (Suc m)))"
proof (rule leads_to_by_rank [where D = "\<lambda>n. due w (fst (r n))" and rank = "\<lambda>n. waiting_rank w (fst (r n))"
      and helpful = "\<lambda>n. queue_step e (fst (r n)) (fst (r (Suc n)))"])
  have held: "case r n of (s, p, q) \<Rightarrow> jobs.both_held c e s p q" for n
    using interleaving_reach [OF assms(1), of n] jobs_held [OF _ assms(3,4)] by (cases "r n") auto
  have good: "job_good w (fst (r n))" for n
    using interleaving_good [OF assms(1,3,4), of n] by (simp add: jobs_good_def)
  fix n assume n: "due w (fst (r n))"
  show "\<exists>m\<ge>n. queue_step e (fst (r m)) (fst (r (Suc m)))"
    using assms(2) due_ready [OF n] by (simp add: fair_to_queue_def)
  have "queue_step e (fst (r n)) (fst (r (Suc n))) \<or> queue_kept (fst (r n)) (fst (r (Suc n)))"
  proof -
    have "preempted c e (r n) (r (Suc n))" using assms(1) by (simp add: interleaving_def)
    then show ?thesis using held [of n] preempted_queue by (cases "r n"; cases "r (Suc n)") auto
  qed
  then show "\<not> queue_step e (fst (r n)) (fst (r (Suc n))) \<Longrightarrow> due w (fst (r (Suc n))) \<and>
      waiting_rank w (fst (r (Suc n))) = waiting_rank w (fst (r n))"
    using kept_rank [OF _ n] by blast
  show "queue_step e (fst (r n)) (fst (r (Suc n))) \<Longrightarrow> result_sent w (fst (r n)) (fst (r (Suc n))) \<or>
      due w (fst (r (Suc n))) \<and> waiting_rank w (fst (r (Suc n))) < waiting_rank w (fst (r n))"
    using queue_progress n good by blast
qed (use assms(5) in simp)

lemma awaited_due:
  assumes "interleaving c e r" "kconfig_ok c" "pending_exact e" "awaited w (tr (fst (r n)))"
  shows "due w (fst (r n))"
  using interleaving_good [OF assms(1-3), of n] assms(4) by (simp add: jobs_good_def due_awaited)

text \<open>Such runs exist: from every state where both threads wait, the queue runs on while it can and the receive thread polls.\<close>

definition run_on :: "env \<Rightarrow> system \<Rightarrow> system" where
  "run_on e s =
     (case wq s of
        Wq_idle \<Rightarrow>
          (case work_queue (tr s) of
             [] \<Rightarrow> polled Rx_link (uds_rx_buf s) s
           | Routine_work # _ \<Rightarrow> routine_begin e s
           | Clear_dtc_work # _ \<Rightarrow> clear_begin e s)
      | Wq_routine_hook ret app_info \<Rightarrow> routine_end ret app_info s
      | Wq_clear_hook \<Rightarrow> clear_done s
      | Wq_clear_sleep \<Rightarrow> clear_end s
      | Wq_sent w \<Rightarrow> work_return w s)"

lemma run_on_queue: "queue_ready s \<Longrightarrow> queue_step e s (run_on e s)"
  by (auto simp: queue_ready_def run_on_def intro: queue_step.intros split: wq_phase.split list.split work.split)

lemma run_on_preempted: "preempted c e (s, Poll, q) (run_on e s, Poll, q)"
proof (cases "queue_ready s")
  case True
  then have "background e s (run_on e s)" using run_on_queue background_queue by blast
  then show ?thesis by (rule preempted.other)
next
  case False
  then have "run_on e s = polled Rx_link (uds_rx_buf s) s" by (simp add: queue_ready_def run_on_def)
  then show ?thesis by (simp add: preempted.silent)
qed

lemma fair_runs_exist:
  assumes "threads_reach c e s Poll q"
  shows "interleaving c e (\<lambda>n. ((run_on e ^^ n) s, Poll, q)) \<and> fair_to_queue e (\<lambda>n. ((run_on e ^^ n) s, Poll, q))"
  using assms run_on_preempted run_on_queue by (auto simp: interleaving_def fair_to_queue_def)

lemma running_awaited:
  assumes "threads_reach c e s Poll q" "kconfig_ok c" "pending_exact e" "erase_routine_status (routine_st s) = ROUTINE_RUNNING"
  shows "awaited Routine_work (tr s)"
proof -
  have "jobs_rest c e s" using jobs_held [OF assms(1-3)] by (simp only: jobs.both_held_def jobs.first.held_idle)
  then show ?thesis using assms(4) by (simp add: jobs_at_def routine_rest_def routine_place_def routine_busy_def)
qed

end
