(* ===== verification/Uds_Download.thy ===== *)
theory Uds_Download
  imports Uds_Invariants
begin

text \<open>
  Downloads over a whole run: where each block that the application is handed lies, read off the calls made
  before it.
\<close>

section \<open>The download as the trace shows it\<close>

text \<open>
  The start address of the latest erase call, and the number of bytes the application has taken since the latest erase it
  accepted.
\<close>

fun download_base :: "trace \<Rightarrow> u32" where
  "download_base [] = 0"
| "download_base (App_flash_erase_target a n # evs) = a"
| "download_base (_ # evs) = download_base evs"

fun download_count :: "env \<Rightarrow> trace \<Rightarrow> u32" where
  "download_count e [] = 0"
| "download_count e (App_flash_erase_target a n # evs) =
     (if uds_app_flash_erase_target (app e) evs a n = 0 then 0 else download_count e evs)"
| "download_count e (App_flash_write_block off d # evs) =
     (if uds_app_flash_write_block (app e) evs off d = 0
      then download_count e evs + word_of_nat (length d) else download_count e evs)"
| "download_count e (_ # evs) = download_count e evs"

text \<open>Each block lies directly behind the bytes taken before it.\<close>

fun contiguous :: "env \<Rightarrow> trace \<Rightarrow> bool" where
  "contiguous e [] \<longleftrightarrow> True"
| "contiguous e (App_flash_write_block off d # evs) \<longleftrightarrow>
     off = download_base evs + download_count e evs \<and> contiguous e evs"
| "contiguous e (_ # evs) \<longleftrightarrow> contiguous e evs"

lemma contiguous_append:
  "contiguous e (post @ App_flash_write_block off d # pre) \<Longrightarrow> off = download_base pre + download_count e pre"
proof (induction post)
  case (Cons ev post) then show ?case by (cases ev) simp_all
qed simp

section \<open>The invariant\<close>

definition download_inv :: "env \<Rightarrow> flash_state \<Rightarrow> trace \<Rightarrow> bool" where
  "download_inv e fl evs \<longleftrightarrow>
     memory_address fl = download_base evs \<and> bytes_received fl = download_count e evs \<and> contiguous e evs"

lemma ignores_download [simp]:
  "ignores (\<lambda>evs. download_inv e fl evs) periodic_event"
  "sid \<noteq> 0x34 \<Longrightarrow> sid \<noteq> 0x36 \<Longrightarrow> ignores (\<lambda>evs. download_inv e fl evs) (service_event sid)"
proof -
  have "periodic_event ev \<Longrightarrow> download_inv e fl (ev # evs) = download_inv e fl evs" for ev evs
    by (cases ev) (simp_all add: download_inv_def)
  then show "ignores (\<lambda>evs. download_inv e fl evs) periodic_event" by (simp add: ignores_def)
next
  assume "sid \<noteq> 0x34" "sid \<noteq> 0x36"
  then have "service_event sid ev \<Longrightarrow> download_inv e fl (ev # evs) = download_inv e fl evs" for ev evs
    by (cases ev) (simp_all add: service_event_def download_inv_def)
  then show "ignores (\<lambda>evs. download_inv e fl evs) (service_event sid)" by (simp add: ignores_def)
qed

lemma download_inv_frame [simp]:
  "download_inv e fl (s3_event c ses # evs) = download_inv e fl evs"
  "download_inv e fl (nrc_trace sid nrc a @ evs) = download_inv e fl evs"
  by (simp_all add: s3_event_def nrc_trace_def download_inv_def)

lemma download_inv_handle:
  assumes "download_inv e fl (trace i)"
  shows "download_inv e (fst (uds_handle_request_download c e ses ss send nrc req len (fl, i)))
      (trace (snd (uds_handle_request_download c e ses ss send nrc req len (fl, i))))"
    and "len \<le> length req \<Longrightarrow> download_inv e (fst (uds_handle_transfer_data e send nrc req len (fl, i)))
      (trace (snd (uds_handle_transfer_data e send nrc req len (fl, i))))"
    and "download_inv e (fst (uds_handle_request_transfer_exit send nrc req len (fl, i)))
      (trace (snd (uds_handle_request_transfer_exit send nrc req len (fl, i))))"
proof -
  assume "len \<le> length req"
  then have "min (length req - 2) (len - 2) = len - 2" by simp
  with assms show "download_inv e (fst (uds_handle_transfer_data e send nrc req len (fl, i)))
      (trace (snd (uds_handle_transfer_data e send nrc req len (fl, i))))"
    by (auto simp: uds_handle_transfer_data_def Let_def download_inv_def nrc_trace_def)
qed (use assms in \<open>auto simp: uds_handle_request_download_def uds_handle_request_transfer_exit_def
      Let_def case_prod_beta download_inv_def nrc_trace_def\<close>)

lemma download_inv_dispatch:
  assumes "download_inv e (flash_st s) (tr s)" "len \<le> length req" "uds_tx_buf (io_st s) \<noteq> []"
  shows "download_inv e (flash_st (uds_dispatch c e req len a (accepted c a s)))
    (tr (uds_dispatch c e req len a (accepted c a s)))"
proof (cases "req ! 0 \<in> {0x34, 0x36, 0x37}")
  case True
  have s: "download_inv e (flash_st s) (trace (io_st (accepted c a s)))"
    using assms(1) by simp
  show ?thesis
    using True s download_inv_handle [OF s] assms(2)
    by (cases a) (auto simp: uds_dispatch_def Let_def)
next
  case False
  then show ?thesis
    using assms(1,3)
      ignores_dispatch [of "\<lambda>evs. download_inv e (flash_st s) evs" req "accepted c a s" c e len a]
    by (simp add: dispatch_flash)
qed

lemma init_event_download:
  "\<forall>ev \<in> set evs. init_event c ev \<Longrightarrow> download_inv e flash_state_0 evs"
proof (induction evs)
  case (Cons ev evs) then show ?case by (cases ev) (auto simp: download_inv_def)
qed (simp add: download_inv_def flash_state_0_def)

lemma reachable_download:
  assumes "reachable c e s" "kconfig_ok c"
  shows "download_inv e (flash_st s) (tr s)"
  using assms(1)
proof (induction rule: reachable_invariant)
  case boot
  then show ?case using init_event_download [OF boot_trace [OF boot], of e] by (simp add: booted_sel)
next
  case (request s a buf len)
  then show ?case
    using reachable_tx_buf [OF request(1) assms(2)] by (intro download_inv_dispatch) simp_all
next
  case (periodic s)
  have "periodic_inv (periodic_st s)" by (rule reachable_tx_buf [OF periodic(1) assms(2)])
  with periodic(2) show ?case
    by (simp add: ignores_round [where F = "\<lambda>evs. download_inv e (flash_st s) evs"])
qed (auto simp: download_inv_def nrc_trace_def split: option.splits)

end
