(* ===== verification/Uds_Timing.thy ===== *)
theory Uds_Timing
  imports Uds_Invariants
begin

text \<open>The duration and the period every timer is started with, on every run.\<close>

fun timer_times :: "kconfig \<Rightarrow> timer \<Rightarrow> nat \<times> nat" where
  "timer_times c S3_timer = (CONFIG_UDS_S3_TIMEOUT_MS c, 0)"
| "timer_times c Lockout_timer = (CONFIG_UDS_SEC_LOCKOUT_TIME_MS c, 0)"
| "timer_times c Reset_timer = (UDS_RESET_DELAY_MS, 0)"
| "timer_times c Routine_nrc78_timer = (0, UDS_ROUTINE_NRC78_PERIOD_MS)"
| "timer_times c Clear_nrc78_timer = (UDS_NRC78_PERIOD_MS, 0)"

fun as_configured :: "kconfig \<Rightarrow> event \<Rightarrow> bool" where
  "as_configured c (K_timer_start t d p) \<longleftrightarrow> (d, p) = timer_times c t"
| "as_configured c _ \<longleftrightarrow> True"

definition timers_configured :: "kconfig \<Rightarrow> trace \<Rightarrow> bool" where
  "timers_configured c evs \<longleftrightarrow> (\<forall>ev \<in> set evs. as_configured c ev)"

lemma timers_configured_simps [simp]:
  "timers_configured c []"
  "timers_configured c (ev # evs) \<longleftrightarrow> as_configured c ev \<and> timers_configured c evs"
  "timers_configured c (nrc_trace sid nrc a @ evs) \<longleftrightarrow> timers_configured c evs"
  "as_configured c (s3_event c ses)"
  by (auto simp: timers_configured_def nrc_trace_def s3_event_def)

lemma ignores_times [simp]:
  "ignores (timers_configured c) periodic_event"
  "(\<And>t. sid \<noteq> timer_service t) \<Longrightarrow> ignores (timers_configured c) (service_event sid)"
proof -
  have "periodic_event ev \<Longrightarrow> as_configured c ev" for ev
    by (cases ev) simp_all
  then show "ignores (timers_configured c) periodic_event" by (simp add: ignores_def)
next
  assume "\<And>t. sid \<noteq> timer_service t"
  then have "service_event sid ev \<Longrightarrow> as_configured c ev" for ev
    by (cases ev) (auto simp: service_event_def)
  then show "ignores (timers_configured c) (service_event sid)" by (simp add: ignores_def)
qed

lemma times_handle:
  assumes "timers_configured c (trace i)"
  shows "timers_configured c (trace (snd (uds_reset_handle send nrc req len (rs, i))))"
    "timers_configured c (trace (snd (uds_clear_dtc_handle e send nrc req len (cs, i))))"
    "timers_configured c (trace (snd (uds_routine_handle_control e ses send nrc req len (us, i))))"
    "timers_configured c (trace (snd (uds_security_handle_request c e send nrc req len (ss, i))))"
  using assms
  by (simp_all add: uds_reset_handle_def uds_clear_dtc_handle_def uds_routine_handle_control_def
      uds_security_handle_request_def uds_security_request_seed_def uds_security_send_key_def Let_def case_prod_beta)

lemma times_dispatch:
  assumes "timers_configured c (tr s)" "uds_tx_buf (io_st s) \<noteq> []"
  shows "timers_configured c (tr (uds_dispatch c e req len a (accepted c a s)))"
proof (cases "req ! 0 \<in> {0x10, 0x11, 0x14, 0x27, 0x31}")
  case True
  have s: "timers_configured c (trace (io_st (accepted c a s)))" using assms(1) by simp
  have "timers_configured c (tr (uds_session_case c req len (accepted c a s)))"
    using s by (simp add: uds_session_case_def Let_def uds_session_set_def case_prod_beta refresh_timer_eq)
  then show ?thesis
    using True s times_handle [OF s] by (cases a) (auto simp: uds_dispatch_def Let_def)
next
  case False
  then have "req ! 0 \<noteq> timer_service t" for t by (cases t) auto
  with assms show ?thesis by (simp add: ignores_dispatch [where F = "timers_configured c"])
qed

lemma init_event_times: "init_event c ev \<Longrightarrow> as_configured c ev"
  by (cases ev) auto

lemma reachable_times:
  assumes "reachable c e s" "kconfig_ok c"
  shows "timers_configured c (tr s)"
  using assms(1)
proof (induction rule: reachable_invariant)
  case boot
  then show ?case using boot_trace [OF boot] init_event_times by (auto simp: timers_configured_def)
next
  case (request s a buf len)
  then show ?case using reachable_tx_buf [OF request(1) assms(2)] by (intro times_dispatch) simp_all
next
  case (periodic s)
  have "periodic_inv (periodic_st s)" by (rule reachable_tx_buf [OF periodic(1) assms(2)])
  with periodic(2) show ?case by (simp add: ignores_round [where F = "timers_configured c"])
qed (auto split: option.splits)

end
