(* ===== verification/Uds_Answers.thy ===== *)
theory Uds_Answers
  imports Uds_Server
begin

text \<open>
  Which requests on the physical link are answered at once: all but four kinds, and each with exactly one frame. And what the
  gate of the gated services means for the whole module.
\<close>

section \<open>The frames of each service\<close>

lemma frames_report_dtcs [simp]: "frames (trace (snd (report_dtcs e fs m ks temp k i))) = frames (trace i)"
  by (induction ks arbitrary: temp k i) (simp_all add: Let_def case_prod_beta)

lemma addressing_report_dtcs [simp]: "current_msg_addressing (snd (report_dtcs e fs m ks temp k i)) = current_msg_addressing i"
  by (induction ks arbitrary: temp k i) (simp_all add: Let_def case_prod_beta)

lemma assemble_frames [simp]: "frames (trace (snd (assemble_entries e off ds buf n t i))) = frames (trace i)"
  "current_msg_addressing (snd (assemble_entries e off ds buf n t i)) = current_msg_addressing i"
  by (induction ds arbitrary: buf n t i; simp add: Let_def case_prod_beta)+

lemma handle_answers:
  assumes "current_msg_addressing i = UDS_ADDR_PHYSICAL"
  defines "n \<equiv> Suc (length (frames (trace i)))"
  shows "length (frames (trace (snd (uds_reset_handle send nrc req len (rs, i))))) = n"
    "length (frames (trace (uds_read_dtc_handle c e send nrc req len i))) = n"
    "length (frames (trace (uds_read_did_case c e dm req len i))) = n"
    "length (frames (trace (snd (uds_security_handle_request c e send nrc req len (ss, i))))) = n"
    "0 < len \<Longrightarrow> length (frames (trace (uds_write_did_handle e ses sec send nrc req len i))) = n"
    "0 < len \<Longrightarrow> length (frames (trace (uds_handle_io_control e ses sec send nrc req len i))) = n"
    "length (frames (trace (snd (uds_handle_define_dynamic_did send nrc req len (dm, i))))) = n"
    "length (frames (trace (snd (uds_handle_request_download c e ses sec send nrc req len (fl, i))))) = n"
    "length (frames (trace (snd (uds_handle_transfer_data e send nrc req len (fl, i))))) = n"
    "length (frames (trace (snd (uds_handle_request_transfer_exit send nrc req len (fl, i))))) = n"
    "length (frames (trace (uds_event_case req len i))) = n"
  using assms(1) unfolding n_def
  by (simp_all add: uds_reset_handle_def uds_read_dtc_handle_def uds_read_did_case_def uds_security_handle_request_def
      uds_security_request_seed_def uds_security_send_key_def uds_write_did_handle_def uds_handle_io_control_def
      uds_handle_define_dynamic_did_def uds_handle_request_download_def uds_handle_transfer_data_def
      uds_handle_request_transfer_exit_def uds_event_case_def uds_read_dynamic_did_payload_def Let_def case_prod_beta
      del: upt_Suc split: option.split)

lemma handle_answers_unless:
  assumes "current_msg_addressing i = UDS_ADDR_PHYSICAL"
  defines "n \<equiv> length (frames (trace i))"
  shows "length (frames (trace (snd (uds_clear_dtc_handle e send nrc req len (cs, i)))))
      = n + (if len = 4 \<and> \<not> k_work_is_pending e (trace i) Clear_dtc_work then 0 else 1)"
    "length (frames (trace (snd (uds_handle_periodic_request send nrc req len (ps, i)))))
      = n + (if 3 \<le> len \<and> req ! 1 \<noteq> 0x01 \<and> req ! 1 \<noteq> 0x04 then 0 else 1)"
    "0 < len \<Longrightarrow> length (frames (trace (snd (uds_routine_handle_control e ses send nrc req len (us, i)))))
      = n + (if 4 \<le> len \<and> req ! 1 = 0x01 \<and> current_session ses \<noteq> UDS_SESSION_DEFAULT \<and>
          erase_routine_status us \<noteq> ROUTINE_RUNNING then 0 else 1)"
    "length (frames (trace (uds_tester_present_case req len i)))
      = n + (if 2 \<le> len \<and> req ! 1 AND 0x80 \<noteq> 0 then 0 else 1)"
  using assms(1) unfolding n_def
  by (simp_all add: uds_clear_dtc_handle_def uds_handle_periodic_request_def uds_routine_handle_control_def
      uds_tester_present_case_def Let_def case_prod_beta)

lemma session_case_answers:
  "current_msg_addressing (io_st s) = UDS_ADDR_PHYSICAL \<Longrightarrow>
   length (frames (trace (io_st (uds_session_case c req len s)))) = Suc (length (frames (trace (io_st s))))"
  by (simp add: uds_session_case_def Let_def uds_session_set_def case_prod_beta refresh_timer_eq s3_event_def)

section \<open>Gated services\<close>

text \<open>\<open>inert s t\<close>: \<open>t\<close> differs from \<open>s\<close> in the input/output state only, and no hook was called on the way.\<close>

definition inert :: "'a uds_state_scheme \<Rightarrow> 'a uds_state_scheme \<Rightarrow> bool" where
  "inert s t \<longleftrightarrow> (\<exists>j. t = s\<lparr>io_st := j\<rparr> \<and> no_hooks (io_st s) j)"

lemma inert_refl [simp]: "inert s s"
  unfolding inert_def by (rule exI [of _ "io_st s"]) simp

lemma inert_trans [trans]: "inert s t \<Longrightarrow> inert t u \<Longrightarrow> inert s u"
proof -
  assume "inert s t" "inert t u"
  then obtain j k where "t = s\<lparr>io_st := j\<rparr>" "no_hooks (io_st s) j" "u = t\<lparr>io_st := k\<rparr>" "no_hooks (io_st t) k"
    by (auto simp: inert_def)
  then have "u = s\<lparr>io_st := k\<rparr> \<and> no_hooks (io_st s) k" by (auto intro: no_hooks_trans)
  then show ?thesis unfolding inert_def by blast
qed

lemma inert_on_io: "no_hooks (io_st s) (f (io_st s)) \<Longrightarrow> inert s (on_io f s)"
  by (auto simp: inert_def on_io_def)

lemma inert_on_flash:
  "fst (f (flash_st s, io_st s)) = flash_st s \<Longrightarrow> no_hooks (io_st s) (snd (f (flash_st s, io_st s))) \<Longrightarrow>
     inert s (on_flash f s)"
  by (auto simp: inert_def on_flash_def case_prod_beta)

lemma inert_security: "inert s t \<Longrightarrow> security_st t = security_st s"
  by (auto simp: inert_def)

lemma inert_accepted: "inert s (accepted c a s)"
proof -
  have "no_hooks (io_st s) (io_st (accepted c a s))"
    using new_events_eq [of "io_st (accepted c a s)" "[s3_event c (session_st s)]" "io_st s"]
      growsI [of "io_st (accepted c a s)" "[s3_event c (session_st s)]" "io_st s"]
    by (simp add: no_hooks_def)
  then show ?thesis unfolding inert_def by (intro exI conjI) (simp_all add: accepted_def)
qed

lemma inert_dispatch:
  assumes "security_status (security_st s) \<noteq> UDS_SEC_UNLOCKED" "req ! 0 \<in> {0x2E, 0x2F, 0x34}"
  shows "inert s (uds_dispatch c e req len a s)"
proof -
  have "inert s (on_io (uds_write_did_handle e (session_st s) (security_st s) send nrc req len) s)"
    "inert s (on_io (uds_handle_io_control e (session_st s) (security_st s) send nrc req len) s)"
    "inert s (on_flash (uds_handle_request_download c e (session_st s) (security_st s) send nrc req len) s)"
    "inert s (on_io (uds_send_nrc sid code) s)" for send nrc sid code
    using assms(1) wdid.gate_pair [of "session_st s" "security_st s" e send nrc req len "((), io_st s)"]
      ioc.gate_pair [of "session_st s" "security_st s" e send nrc req len "((), io_st s)"]
      rdl.gate_pair [of "session_st s" "security_st s" c e send nrc req len "(flash_st s, io_st s)"]
    by (simp_all add: inert_on_io inert_on_flash)
  with assms(2) show ?thesis by (cases a) (auto simp: uds_dispatch_def)
qed

section \<open>Properties\<close>

text \<open>
  The requests on the physical link that are not answered at once: no byte, a suppressed TesterPresent, a transmission mode
  the periodic service does not know, and the two jobs that are accepted for the background.
\<close>

definition unanswered :: "kconfig \<Rightarrow> env \<Rightarrow> u8 list \<Rightarrow> nat \<Rightarrow> 'a uds_state_scheme \<Rightarrow> bool" where
  "unanswered c e req len s \<longleftrightarrow>
     len = 0 \<or>
     req ! 0 = 0x3E \<and> 2 \<le> len \<and> req ! 1 AND 0x80 \<noteq> 0 \<or>
     req ! 0 = 0x2A \<and> 3 \<le> len \<and> req ! 1 \<noteq> 0x01 \<and> req ! 1 \<noteq> 0x04 \<or>
     req ! 0 = 0x31 \<and> 4 \<le> len \<and> req ! 1 = 0x01 \<and> current_session (session_st s) \<noteq> UDS_SESSION_DEFAULT \<and>
       erase_routine_status (routine_st s) \<noteq> ROUTINE_RUNNING \<or>
     req ! 0 = 0x14 \<and> len = 4 \<and>
       \<not> k_work_is_pending e (s3_event c (session_st s) # trace (io_st s)) Clear_dtc_work"

text \<open>
  C8: every request on the physical link is answered with exactly one frame at once, except those of \<open>unanswered\<close>, which
  get none.
\<close>

theorem physical_request_answered:
  "length (frames (trace (io_st (uds_process_request c e req len UDS_ADDR_PHYSICAL s)))) =
     length (frames (trace (io_st s))) + (if unanswered c e req len s then 0 else 1)"
proof (cases "len = 0")
  case False
  define i where "i = io_st (accepted c UDS_ADDR_PHYSICAL s)"
  have i: "current_msg_addressing i = UDS_ADDR_PHYSICAL" "length (frames (trace i)) = length (frames (trace (io_st s)))"
    "trace i = s3_event c (session_st s) # trace (io_st s)"
    by (simp_all add: i_def s3_event_def)
  have "length (frames (trace (io_st (uds_dispatch c e req len UDS_ADDR_PHYSICAL (accepted c UDS_ADDR_PHYSICAL s)))))
      = length (frames (trace i)) + (if unanswered c e req len s then 0 else 1)"
    using False handle_answers [OF i(1)] handle_answers_unless [OF i(1)] session_case_answers [of "accepted c UDS_ADDR_PHYSICAL s" c req len] i(1)
    by (simp add: uds_dispatch_def Let_def unanswered_def i_def [symmetric] i(3))
  with False show ?thesis by (simp add: process_request_eq i(2))
qed (simp add: unanswered_def process_request_eq)

text \<open>
  While security is not unlocked, no series of requests to write an identifier, drive an output or start a download, on either
  link and in any session, calls a hook of the application or changes any component.
\<close>

theorem locked_requests_inert:
  assumes "security_status (security_st s) \<noteq> UDS_SEC_UNLOCKED"
    "\<forall>(req, len, a) \<in> set reqs. req ! 0 \<in> {0x2E, 0x2F, 0x34}"
  shows "inert s (foldl (\<lambda>s (req, len, a). uds_process_request c e req len a s) s reqs)"
  using assms
proof (induction reqs arbitrary: s)
  case (Cons r reqs)
  obtain req len a where r: "r = (req, len, a)" by (cases r)
  define u where "u = uds_process_request c e req len a s"
  have u: "inert s u"
    using inert_accepted inert_dispatch [of "accepted c a s" req c e len a] Cons.prems
    by (auto simp: u_def process_request_eq r intro: inert_trans)
  then have "inert u (foldl (\<lambda>s (req, len, a). uds_process_request c e req len a s) u reqs)"
    using Cons.prems by (intro Cons.IH) (simp_all add: inert_security)
  with u show ?case by (auto simp: r u_def intro: inert_trans)
qed simp

theorem locked_requests_inert_witness:
  "inert (uds_state_0 kconfig_default) (foldl (\<lambda>s (req, len, a). uds_process_request kconfig_default (quiet_env weak_hooks) req len a s)
     (uds_state_0 kconfig_default) [([0x2E, 1, 2, 3], 4, UDS_ADDR_PHYSICAL), ([0x34, 0, 0x11, 1, 1], 5, UDS_ADDR_PHYSICAL)])"
  by (rule locked_requests_inert) (simp_all add: uds_state_0_def security_state_0_def)

end
