(* ===== verification/Uds_Scenarios.thy ===== *)
theory Uds_Scenarios
  imports Uds_Fairness Uds_Memory Uds_Download Uds_Timing Uds_Answers
begin

text \<open>
  Concrete runs of the whole module with the default configuration: a tester that unlocks it, one that guesses keys
  until it is locked out, and one that starts a routine. They show that the properties of the running module
  speak of states that exist.
\<close>

text \<open>A received message: the request at the start of the receive buffer.\<close>

definition padded :: "u8 list \<Rightarrow> u8 list" where
  "padded req = req @ replicate (4095 - length req) 0"

definition tell :: "env \<Rightarrow> u8 list \<Rightarrow> system \<Rightarrow> system" where
  "tell e req s = received kconfig_default e Rx_link (padded req) (length req) s"

lemma reachable_tell:
  assumes "reachable kconfig_default e s" "length req \<le> 4095"
  shows "reachable kconfig_default e (tell e req s)"
proof -
  have "length (uds_rx_buf s) = 4095"
    using reachable_buffers [OF assms(1) kconfig_default_ok] by (simp add: buffers_ok_def, simp add: kconfig_default_def)
  with assms show ?thesis
    unfolding tell_def by (intro reachable.step [OF assms(1)] uds_step.request) (simp_all add: padded_def)
qed

text \<open>The application of the runs: it accepts or refuses every key, and accepts the rest.\<close>

definition run_hooks :: "int \<Rightarrow> app_hooks" where
  "run_hooks verdict = weak_hooks
     \<lparr>uds_app_verify_key_krypto := \<lambda>evs l sd k. verdict,
      uds_app_write_did := \<lambda>evs d bs. 0,
      uds_app_flash_erase_target := \<lambda>evs a n. 0,
      uds_app_flash_write_block := \<lambda>evs a d. 0\<rparr>"

definition run_env :: "int \<Rightarrow> env" where
  "run_env verdict = backed_env (run_hooks verdict) []"

lemma run_env_sel [simp]:
  "device_is_ready (run_env v) evs d" "nvs_read (run_env v) evs fs nid n = nvs_after evs fs nid n"
  "uds_app_verify_key_krypto (app (run_env v)) evs l sd k = v"
  "k_work_is_pending (run_env v) evs w = work_busy w evs"
  "storage_usable (run_env v)" "backed (run_env v) []" "pending_exact (run_env v)"
  by (simp_all add: run_env_def) (simp_all add: backed_env_def run_hooks_def pending_exact_def)

lemma run_boots: "fst (uds_init kconfig_default (run_env v) (system_0 kconfig_default)) = 0"
  by (simp add: init_ok_iff)

lemma run_booted: "reachable kconfig_default (run_env v) (booted kconfig_default (run_env v))"
  using run_boots by (rule reachable.boot)

lemma run_booted_view:
  "sec_view (security_st (booted kconfig_default (run_env v))) = (UDS_SEC_LOCKED, 0)"
  "counter_ok kconfig_default (security_st (booted kconfig_default (run_env v)))"
proof -
  have "store_ok (security_state_0 kconfig_default) [] \<and> counter_ok kconfig_default (security_state_0 kconfig_default)"
    by (simp add: store_ok_def counter_ok_def security_state_0_def kconfig_default_def)
  then show v: "sec_view (security_st (booted kconfig_default (run_env v))) = (UDS_SEC_LOCKED, 0)"
    using booted_restores [OF run_boots [of v], of "[]" "security_state_0 kconfig_default"]
    by (simp add: security_state_0_def)
  then show "counter_ok kconfig_default (security_st (booted kconfig_default (run_env v)))"
    by (simp add: sec_view_def counter_ok_def kconfig_default_def)
qed

text \<open>A seed request and a key.\<close>

definition attempt :: "env \<Rightarrow> system \<Rightarrow> system" where
  "attempt e s = tell e [0x27, 2, 1, 2, 3, 4] (tell e [0x27, 1] s)"

lemma reachable_attempt:
  "reachable kconfig_default e s \<Longrightarrow> reachable kconfig_default e (attempt e s)"
  by (simp add: attempt_def reachable_tell)

lemma tell_security:
  assumes "req \<noteq> []" "req ! 0 = 0x27"
  shows "security_st (tell e req s) = fst (uds_security_handle_request kconfig_default e Uds_send_response Uds_send_nrc
     (padded req) (length req) (security_st s, io_st (accepted kconfig_default UDS_ADDR_PHYSICAL (polled Rx_link (padded req) s))))"
  using assms by (simp add: tell_def received_eq dispatch_security padded_def nth_append)

lemma attempt_view:
  assumes "sec_view (security_st s) = (UDS_SEC_LOCKED, k)" "k < 200"
  shows "sec_view (security_st (attempt (run_env v) s)) =
    (if v = 0 then (UDS_SEC_UNLOCKED, 0)
     else if k + 1 \<ge> 3 then (UDS_SEC_BRUTE_FORCE_LOCKOUT, k + 1) else (UDS_SEC_LOCKED, k + 1))"
proof -
  define t where "t = tell (run_env v) [0x27, 1] s"
  define C where "C = kconfig_default"
  have m: "CONFIG_UDS_SEC_MAX_FAILED_ATTEMPTS C = 3" "CONFIG_UDS_SEC_SEED_SIZE C = 4"
    by (simp_all add: C_def kconfig_default_def)
  have s: "unat (failed_attempts_counter (security_st s)) < 255" using assms by (simp add: sec_view_def)
  have "sec_view (security_st t) = sec_spec 3 Sec_seed (UDS_SEC_LOCKED, k)"
    unfolding t_def tell_security [of "[0x27, 1]", simplified] C_def [symmetric] security_step_view [OF s] m assms(1)
    by (simp add: sec_input_of_def padded_def)
  then have t: "sec_view (security_st t) = (UDS_SEC_SEED_REQUESTED, k)" by simp
  then have t255: "unat (failed_attempts_counter (security_st t)) < 255" using assms(2) by (simp add: sec_view_def)
  have "sec_view (security_st (tell (run_env v) [0x27, 2, 1, 2, 3, 4] t)) = sec_spec 3 (Sec_key (v = 0)) (UDS_SEC_SEED_REQUESTED, k)"
    unfolding tell_security [of "[0x27, 2, 1, 2, 3, 4]", simplified] C_def [symmetric] security_step_view [OF t255] m t
    by (simp add: sec_input_of_def padded_def m key_valid_def)
  then show ?thesis by (simp add: attempt_def t_def)
qed

section \<open>The runs\<close>

abbreviation run_start :: "int \<Rightarrow> system" where
  "run_start v \<equiv> booted kconfig_default (run_env v)"

abbreviation run_unlocked :: system where
  "run_unlocked \<equiv> attempt (run_env 0) (run_start 0)"

abbreviation run_locked_out :: system where
  "run_locked_out \<equiv> attempt (run_env 1) (attempt (run_env 1) (attempt (run_env 1) (run_start 1)))"

lemma run_unlocked:
  "reachable kconfig_default (run_env 0) run_unlocked" "security_status (security_st run_unlocked) = UDS_SEC_UNLOCKED"
  using attempt_view [OF run_booted_view(1), of 0] by (simp_all add: reachable_attempt run_booted sec_view_def)

lemma run_locked_out:
  "reachable kconfig_default (run_env 1) run_locked_out"
  "security_status (security_st run_locked_out) = UDS_SEC_BRUTE_FORCE_LOCKOUT"
  "failed_attempts_counter (security_st run_locked_out) = 3"
proof -
  show "reachable kconfig_default (run_env 1) run_locked_out" by (simp add: reachable_attempt run_booted)
  have 1: "sec_view (security_st (attempt (run_env 1) (run_start 1))) = (UDS_SEC_LOCKED, 1)"
    using attempt_view [OF run_booted_view(1), of 1] by simp
  have 2: "sec_view (security_st (attempt (run_env 1) (attempt (run_env 1) (run_start 1)))) = (UDS_SEC_LOCKED, 2)"
    using attempt_view [OF 1, of 1] by simp
  have "sec_view (security_st run_locked_out) = (UDS_SEC_BRUTE_FORCE_LOCKOUT, 3)"
    using attempt_view [OF 2, of 1] by simp
  then show "security_status (security_st run_locked_out) = UDS_SEC_BRUTE_FORCE_LOCKOUT"
    "failed_attempts_counter (security_st run_locked_out) = 3"
    by (simp_all add: sec_view_def word_unat_eq_iff)
qed

definition run_extended :: system where
  "run_extended = tell (run_env 0) [0x10, 3] (run_start 0)"

lemma run_extended:
  "reachable kconfig_default (run_env 0) run_extended" "current_session (session_st run_extended) = UDS_SESSION_EXTENDED"
  "\<exists>d p. K_timer_start S3_timer d p \<in> set (tr run_extended)"
proof -
  show "reachable kconfig_default (run_env 0) run_extended" by (simp add: run_extended_def reachable_tell run_booted)
  then show "current_session (session_st run_extended) = UDS_SESSION_EXTENDED"
    by (simp add: run_extended_def tell_def received_eq dispatch_session valid_session_request_def padded_def
        uds_session_type_of_def)
  show "\<exists>d p. K_timer_start S3_timer d p \<in> set (tr run_extended)"
    unfolding run_extended_def tell_def received_eq
    by (simp add: dispatch_0x10 padded_def session_case_trace uds_session_type_of_def) (auto simp: s3_event_def)
qed

definition run_routine :: system where
  "run_routine = tell (run_env 0) [0x31, 1, 0xFF, 0] run_extended"

lemma run_routine:
  "reachable kconfig_default (run_env 0) run_routine" "erase_routine_status (routine_st run_routine) = ROUTINE_RUNNING"
proof -
  show "reachable kconfig_default (run_env 0) run_routine" by (simp add: run_routine_def reachable_tell run_extended)
  have r: "routine_st run_extended = routine_state_0"
    by (simp add: run_extended_def tell_def received_eq dispatch_routine padded_def booted_sel run_boots)
  show "erase_routine_status (routine_st run_routine) = ROUTINE_RUNNING"
    by (simp add: run_routine_def tell_def received_eq dispatch_routine padded_def r run_extended(2)
        uds_routine_handle_control_def Let_def routine_state_0_def)
qed

text \<open>A tester that changes the session, unlocks the module, negotiates a download and sends one byte.\<close>

definition run_download :: system where
  "run_download = tell (run_env 0) [0x34, 0, 0x11, 0x10, 0x04] (attempt (run_env 0) run_extended)"

definition run_block :: system where
  "run_block = tell (run_env 0) [0x36, 1, 0xAA] run_download"

lemma attempt_session: "session_st (attempt e s) = session_st s"
  by (simp add: attempt_def tell_def received_eq dispatch_session valid_session_request_def padded_def)

lemma run_extended_view: "sec_view (security_st run_extended) = (UDS_SEC_LOCKED, 0)"
  using run_booted_view(1) [of 0]
  by (simp add: run_extended_def tell_def received_eq dispatch_security valid_session_request_def padded_def
      uds_security_reset_lock_def sec_view_def)

lemma run_download:
  "reachable kconfig_default (run_env 0) run_download" "flash_st run_download = flash_state_0
     \<lparr>pipeline_state := FLASH_STATE_DOWNLOAD_APPROVED, memory_address := 0x10, memory_size := 4\<rparr>"
proof -
  show "reachable kconfig_default (run_env 0) run_download"
    by (simp add: run_download_def reachable_tell reachable_attempt run_extended)
  have u: "security_status (security_st (attempt (run_env 0) run_extended)) = UDS_SEC_UNLOCKED"
    using attempt_view [OF run_extended_view, of 0] by (simp add: sec_view_def)
  have f: "flash_st (attempt (run_env 0) run_extended) = flash_state_0"
    by (simp add: attempt_def run_extended_def tell_def received_eq dispatch_flash padded_def booted_sel run_boots)
  have r: "read_be (padded [0x34, 0, 0x11, 0x10, 0x04]) 3 1 0 = (0x10, 4)"
    "read_be (padded [0x34, 0, 0x11, 0x10, 0x04]) 4 1 0 = (4, 5)"
    by (simp_all add: padded_def be_step_def nth_append)
  show "flash_st run_download = flash_state_0
     \<lparr>pipeline_state := FLASH_STATE_DOWNLOAD_APPROVED, memory_address := 0x10, memory_size := 4\<rparr>"
    using u f r run_extended(2) attempt_session [of "run_env 0" run_extended]
    by (simp add: run_download_def tell_def received_eq dispatch_flash uds_handle_request_download_def Let_def
        padded_def nth_append flash_state_0_def run_env_def backed_env_def run_hooks_def)
qed

lemma run_block:
  "reachable kconfig_default (run_env 0) run_block"
  "\<exists>post pre. tr run_block = post @ App_flash_write_block 0x10 [0xAA] # pre"
proof -
  show "reachable kconfig_default (run_env 0) run_block" by (simp add: run_block_def reachable_tell run_download)
  show "\<exists>post pre. tr run_block = post @ App_flash_write_block 0x10 [0xAA] # pre"
    by (intro exI [of _ "[Isotp_send _]"] exI)
     (simp add: run_block_def tell_def received_eq uds_dispatch_def Let_def padded_def uds_handle_transfer_data_def run_download(2)
       flash_state_0_def run_env_def backed_env_def run_hooks_def)
qed

section \<open>Runs of the threads\<close>

text \<open>The receive thread has bound its links and polls.\<close>

definition run_bound :: "int \<Rightarrow> system" where
  "run_bound v = snd (uds_rx_thread_bind kconfig_default (run_env v) (run_start v))"

lemma run_bound:
  "threads_reach kconfig_default (run_env v) (run_bound v) Poll Poll"
  "sec_view (security_st (run_bound v)) = (UDS_SEC_LOCKED, 0)"
  "length (uds_rx_buf (run_bound v)) = 4095"
proof -
  have "alone (bind_prog kconfig_default (run_env v)) (run_start v) = (run_bound v, Poll)"
    by (simp add: alone_bind run_bound_def uds_rx_thread_bind_def Let_def run_env_def backed_env_def quiet_env_def)
  then show "threads_reach kconfig_default (run_env v) (run_bound v) Poll Poll"
    using threads_reach_preempted [OF threads_reach.boot [OF run_boots [of v]] preempted_alone_rx] by simp
  have "length (uds_rx_buf (run_start v)) = 4095"
    by (simp add: booted_sel(9) [OF run_boots], simp add: kconfig_default_def)
  then show "sec_view (security_st (run_bound v)) = (UDS_SEC_LOCKED, 0)" "length (uds_rx_buf (run_bound v)) = 4095"
    using run_booted_view(1) [of v] by (simp_all add: run_bound_def uds_rx_thread_bind_def Let_def)
qed

lemma threads_reach_tell:
  assumes "threads_reach kconfig_default e s Poll q" "length (uds_rx_buf s) = 4095" "length req \<le> 4095"
  shows "threads_reach kconfig_default e (tell e req s) Poll q"
  unfolding tell_def using assms
  by (intro threads_reach_preempted [OF assms(1) preempted_request]) (simp_all add: padded_def)

lemma length_tell: "length req \<le> 4095 \<Longrightarrow> length (uds_rx_buf (tell e req s)) = 4095"
  by (simp add: tell_def received_eq padded_def)

text \<open>A wrong key, a change of the session, and a periodic identifier with the thread at the start of a round.\<close>

lemma run_refused:
  "threads_reach kconfig_default (run_env 1) (attempt (run_env 1) (run_bound 1)) Poll Poll"
  unfolding attempt_def by (intro threads_reach_tell length_tell run_bound) simp_all

lemma run_changed:
  "threads_reach kconfig_default (run_env 0) (tell (run_env 0) [0x10, 3] (run_bound 0)) Poll Poll"
  "current_session (session_st (tell (run_env 0) [0x10, 3] (run_bound 0))) = UDS_SESSION_EXTENDED"
proof -
  show "threads_reach kconfig_default (run_env 0) (tell (run_env 0) [0x10, 3] (run_bound 0)) Poll Poll"
    by (intro threads_reach_tell run_bound) simp
  show "current_session (session_st (tell (run_env 0) [0x10, 3] (run_bound 0))) = UDS_SESSION_EXTENDED"
    by (simp add: tell_def received_eq dispatch_session valid_session_request_def padded_def uds_session_type_of_def)
qed

definition run_started :: system where
  "run_started = tell (run_env 0) [0x31, 1, 0xFF, 0] (tell (run_env 0) [0x10, 3] (run_bound 0))"

lemma run_started:
  "threads_reach kconfig_default (run_env 0) run_started Poll Poll"
  "erase_routine_status (routine_st run_started) = ROUTINE_RUNNING"
proof -
  show "threads_reach kconfig_default (run_env 0) run_started Poll Poll"
    unfolding run_started_def by (intro threads_reach_tell run_changed length_tell) simp_all
  have "routine_st (run_bound 0) = routine_state_0"
    by (simp add: run_bound_def uds_rx_thread_bind_def Let_def booted_sel run_boots)
  then have "routine_st (tell (run_env 0) [0x10, 3] (run_bound 0)) = routine_state_0"
    by (simp add: tell_def received_eq dispatch_routine padded_def)
  then show "erase_routine_status (routine_st run_started) = ROUTINE_RUNNING"
    by (simp add: run_started_def tell_def [of _ "[0x31, 1, 0xFF, 0]"] received_eq dispatch_routine padded_def run_changed(2)
        uds_routine_handle_control_def Let_def routine_state_0_def)
qed

text \<open>A hard reset is requested and answered.\<close>

definition run_reset :: system where
  "run_reset = tell (run_env 0) [0x11, 1] (run_start 0)"

lemma run_reset: "timer_running Reset_timer (tr run_reset)" "last_reset (tr run_reset) = Some 0x01"
proof -
  define s where "s = accepted kconfig_default UDS_ADDR_PHYSICAL (polled Rx_link (padded [0x11, 1]) (run_start 0))"
  have "2 \<le> length (uds_tx_buf (io_st s))"
    using reachable_tx_buf [OF run_booted kconfig_default_ok, of 0] by (simp add: s_def) (simp add: kconfig_default_def)
  then have t: "take 2 (buf_put (Suc 0) [1] (buf_put 0 [0x51] (uds_tx_buf (io_st s)))) = [0x51, 1]" by (rule take_head)
  have "tr run_reset = K_timer_start Reset_timer 50 0 # Isotp_send [0x51, 1] # tr s"
    using t by (simp add: run_reset_def tell_def received_eq padded_def dispatch_0x11 s_def uds_reset_handle_def Let_def)
  then show "timer_running Reset_timer (tr run_reset)" "last_reset (tr run_reset) = Some 0x01"
    by (simp_all add: timer_running_def)
qed

end
