(* ===== verification/Uds_Diagnosis.thy ===== *)
theory Uds_Diagnosis
  imports Uds_Background
begin

text \<open>
  The module as a tester may think of it: a session, a lock with an attempt counter, a download and a routine. Every
  step of the module is one of the few moves of this machine.
\<close>

section \<open>The abstract machine\<close>

record diagnosis =
  dg_session :: uds_session_type
  dg_lock :: uds_security_status
  dg_attempts :: nat
  dg_download :: flash_pipeline_state
  dg_routine :: bool

text \<open>A change of session closes the lock, but does not end a lockout.\<close>

definition closed_lock :: "uds_security_status \<Rightarrow> uds_security_status" where
  "closed_lock st = (if st = UDS_SEC_BRUTE_FORCE_LOCKOUT then UDS_SEC_BRUTE_FORCE_LOCKOUT else UDS_SEC_LOCKED)"

inductive diagnosis_step :: "nat \<Rightarrow> diagnosis \<Rightarrow> diagnosis \<Rightarrow> bool" for m where
  stay: "diagnosis_step m d d"
| change_session: "diagnosis_step m d (d\<lparr>dg_session := ses, dg_lock := closed_lock (dg_lock d)\<rparr>)"
| session_timeout: "dg_session d \<noteq> UDS_SESSION_DEFAULT \<Longrightarrow>
     diagnosis_step m d (d\<lparr>dg_session := UDS_SESSION_DEFAULT, dg_lock := closed_lock (dg_lock d)\<rparr>)"
| security_access: "sec_spec m inp (dg_lock d, dg_attempts d) = (st, k) \<Longrightarrow>
     diagnosis_step m d (d\<lparr>dg_lock := st, dg_attempts := k\<rparr>)"
| lockout_ends: "dg_lock d = UDS_SEC_BRUTE_FORCE_LOCKOUT \<Longrightarrow>
     diagnosis_step m d (d\<lparr>dg_lock := UDS_SEC_LOCKED, dg_attempts := 0\<rparr>)"
| approve_download: "dg_session d \<noteq> UDS_SESSION_DEFAULT \<Longrightarrow> dg_lock d = UDS_SEC_UNLOCKED \<Longrightarrow>
     diagnosis_step m d (d\<lparr>dg_download := FLASH_STATE_DOWNLOAD_APPROVED\<rparr>)"
| take_block: "dg_download d \<noteq> FLASH_STATE_IDLE \<Longrightarrow>
     diagnosis_step m d (d\<lparr>dg_download := FLASH_STATE_TRANSFERRING\<rparr>)"
| close_download: "dg_download d = FLASH_STATE_TRANSFERRING \<Longrightarrow>
     diagnosis_step m d (d\<lparr>dg_download := FLASH_STATE_IDLE\<rparr>)"
| start_routine: "dg_session d \<noteq> UDS_SESSION_DEFAULT \<Longrightarrow> \<not> dg_routine d \<Longrightarrow>
     diagnosis_step m d (d\<lparr>dg_routine := True\<rparr>)"
| end_routine: "dg_routine d \<Longrightarrow> diagnosis_step m d (d\<lparr>dg_routine := False\<rparr>)"

definition diagnosis_start :: "diagnosis \<Rightarrow> bool" where
  "diagnosis_start d \<longleftrightarrow>
     dg_session d = UDS_SESSION_DEFAULT \<and> dg_lock d \<in> {UDS_SEC_LOCKED, UDS_SEC_BRUTE_FORCE_LOCKOUT} \<and>
     dg_download d = FLASH_STATE_IDLE \<and> \<not> dg_routine d"

section \<open>The simulation\<close>

definition diagnosis_of :: "system \<Rightarrow> diagnosis" where
  "diagnosis_of s =
     \<lparr>dg_session = current_session (session_st s), dg_lock = security_status (security_st s),
      dg_attempts = unat (failed_attempts_counter (security_st s)),
      dg_download = pipeline_state (flash_st s),
      dg_routine = (erase_routine_status (routine_st s) = ROUTINE_RUNNING)\<rparr>"

lemma diagnosis_of_eqI:
  assumes "session_st t = session_st s" "security_st t = security_st s" "flash_st t = flash_st s"
    "routine_st t = routine_st s"
  shows "diagnosis_step m (diagnosis_of s) (diagnosis_of t)"
proof -
  have "diagnosis_of t = diagnosis_of s" using assms by (simp add: diagnosis_of_def)
  then show ?thesis by (simp add: diagnosis_step.stay)
qed

text \<open>What each move has to show of the four components.\<close>

lemma simulate_session:
  assumes "current_session (session_st t) = ses" "security_st t = uds_security_reset_lock (security_st s)"
    "flash_st t = flash_st s" "routine_st t = routine_st s"
  shows "diagnosis_of t = (diagnosis_of s)\<lparr>dg_session := ses, dg_lock := closed_lock (dg_lock (diagnosis_of s))\<rparr>"
  using assms by (simp add: diagnosis_of_def uds_security_reset_lock_def closed_lock_def)

lemma simulate_security:
  assumes "session_st t = session_st s" "sec_view (security_st t) = sec_spec m inp (sec_view (security_st s))"
    "flash_st t = flash_st s" "routine_st t = routine_st s"
  shows "diagnosis_step m (diagnosis_of s) (diagnosis_of t)"
proof -
  have "diagnosis_of t = (diagnosis_of s)\<lparr>dg_lock := security_status (security_st t),
      dg_attempts := unat (failed_attempts_counter (security_st t))\<rparr>"
    using assms by (simp add: diagnosis_of_def)
  moreover have "sec_spec m inp (dg_lock (diagnosis_of s), dg_attempts (diagnosis_of s)) =
      (security_status (security_st t), unat (failed_attempts_counter (security_st t)))"
    using assms(2) by (simp add: diagnosis_of_def sec_view_def)
  ultimately show ?thesis by (simp add: diagnosis_step.security_access)
qed

lemma simulate_download:
  assumes "session_st t = session_st s" "security_st t = security_st s" "routine_st t = routine_st s"
    and "pipeline_state (flash_st t) = pipeline_state (flash_st s) \<or>
      pipeline_state (flash_st t) = FLASH_STATE_DOWNLOAD_APPROVED \<and>
        current_session (session_st s) \<noteq> UDS_SESSION_DEFAULT \<and> security_status (security_st s) = UDS_SEC_UNLOCKED \<or>
      pipeline_state (flash_st t) = FLASH_STATE_TRANSFERRING \<and> streaming (flash_st s) \<or>
      pipeline_state (flash_st t) = FLASH_STATE_IDLE \<and> pipeline_state (flash_st s) = FLASH_STATE_TRANSFERRING"
  shows "diagnosis_step m (diagnosis_of s) (diagnosis_of t)"
proof -
  have t: "diagnosis_of t = (diagnosis_of s)\<lparr>dg_download := pipeline_state (flash_st t)\<rparr>"
    using assms(1-3) by (simp add: diagnosis_of_def)
  have same: "(diagnosis_of s)\<lparr>dg_download := pipeline_state (flash_st s)\<rparr> = diagnosis_of s"
    by (simp add: diagnosis_of_def)
  have s: "dg_session (diagnosis_of s) = current_session (session_st s)" "dg_lock (diagnosis_of s) = security_status (security_st s)"
    "dg_download (diagnosis_of s) = pipeline_state (flash_st s)" by (simp_all add: diagnosis_of_def)
  from assms(4) show ?thesis
    unfolding t by (elim disjE) (simp_all add: same s streaming_def diagnosis_step.intros)
qed

lemma simulate_routine:
  assumes "session_st t = session_st s" "security_st t = security_st s" "flash_st t = flash_st s"
    and "(erase_routine_status (routine_st t) = ROUTINE_RUNNING) = (erase_routine_status (routine_st s) = ROUTINE_RUNNING) \<or>
      erase_routine_status (routine_st t) = ROUTINE_RUNNING \<and> current_session (session_st s) \<noteq> UDS_SESSION_DEFAULT \<or>
      erase_routine_status (routine_st s) = ROUTINE_RUNNING"
  shows "diagnosis_step m (diagnosis_of s) (diagnosis_of t)"
proof -
  let ?r = "\<lambda>s. erase_routine_status (routine_st s) = ROUTINE_RUNNING"
  have t: "diagnosis_of t = (diagnosis_of s)\<lparr>dg_routine := ?r t\<rparr>"
    using assms(1-3) by (simp add: diagnosis_of_def)
  have same: "(diagnosis_of s)\<lparr>dg_routine := ?r s\<rparr> = diagnosis_of s" by (simp add: diagnosis_of_def)
  have s: "dg_session (diagnosis_of s) = current_session (session_st s)" "dg_routine (diagnosis_of s) = ?r s"
    by (simp_all add: diagnosis_of_def)
  show ?thesis
  proof (cases "?r t = ?r s")
    case True then show ?thesis unfolding t by (simp only: same diagnosis_step.stay)
  next
    case False then show ?thesis
      using assms(4) unfolding t by (cases "?r t") (auto simp: s intro: diagnosis_step.intros)
  qed
qed

lemma routine_handle_status:
  "(erase_routine_status (fst (uds_routine_handle_control e ses send nrc req len (rs, i))) = ROUTINE_RUNNING) =
     (erase_routine_status rs = ROUTINE_RUNNING) \<or>
   erase_routine_status (fst (uds_routine_handle_control e ses send nrc req len (rs, i))) = ROUTINE_RUNNING \<and>
     current_session ses \<noteq> UDS_SESSION_DEFAULT"
  by (simp add: uds_routine_handle_control_def Let_def case_prod_beta)

lemma download_handle_phase:
  "pipeline_state (fst (uds_handle_request_download c e ses ss send nrc req len (fl, i))) = pipeline_state fl \<or>
   pipeline_state (fst (uds_handle_request_download c e ses ss send nrc req len (fl, i))) = FLASH_STATE_DOWNLOAD_APPROVED \<and>
     current_session ses \<noteq> UDS_SESSION_DEFAULT \<and> security_status ss = UDS_SEC_UNLOCKED"
  by (simp add: uds_handle_request_download_def Let_def case_prod_beta)

lemma transfer_handle_phase:
  "pipeline_state (fst (uds_handle_transfer_data e send nrc req len (fl, i))) = pipeline_state fl \<or>
   pipeline_state (fst (uds_handle_transfer_data e send nrc req len (fl, i))) = FLASH_STATE_TRANSFERRING \<and> streaming fl"
  by (auto simp: uds_handle_transfer_data_def Let_def streaming_def)

lemma exit_handle_phase:
  "pipeline_state (fst (uds_handle_request_transfer_exit send nrc req len (fl, i))) = pipeline_state fl \<or>
   pipeline_state (fst (uds_handle_request_transfer_exit send nrc req len (fl, i))) = FLASH_STATE_IDLE \<and>
     pipeline_state fl = FLASH_STATE_TRANSFERRING"
  by (auto simp: uds_handle_request_transfer_exit_def Let_def)

lemma dispatch_simulated:
  assumes "counter_ok c (security_st s)" "kconfig_ok c"
  shows "diagnosis_step (CONFIG_UDS_SEC_MAX_FAILED_ATTEMPTS c) (diagnosis_of s) (diagnosis_of (uds_dispatch c e req len a s))"
    (is "diagnosis_step ?m _ (diagnosis_of ?t)")
proof -
  consider (security) "req ! 0 = 0x27" "a = UDS_ADDR_PHYSICAL" | (session) "valid_session_request req len"
    | (download) "req ! 0 \<in> {0x34, 0x36, 0x37}" | (routine) "req ! 0 = 0x31"
    | (other) "\<not> (req ! 0 = 0x27 \<and> a = UDS_ADDR_PHYSICAL)" "\<not> valid_session_request req len" "req ! 0 \<notin> {0x34, 0x36, 0x37}"
        "req ! 0 \<noteq> 0x31" by blast
  then show ?thesis
  proof cases
    case security
    then show ?thesis
      using security_step_view [OF counter_small [OF assms], of c e Uds_send_response Uds_send_nrc req len "io_st s"]
      by (intro simulate_security) (simp_all add: dispatch_session dispatch_security dispatch_flash dispatch_routine valid_session_request_def)
  next
    case session
    then have "diagnosis_of ?t = (diagnosis_of s)
        \<lparr>dg_session := uds_session_type_of (req ! 1), dg_lock := closed_lock (dg_lock (diagnosis_of s))\<rparr>"
      by (intro simulate_session)
        (simp_all add: dispatch_session dispatch_security dispatch_flash dispatch_routine valid_session_request_def)
    then show ?thesis by (simp add: diagnosis_step.change_session)
  next
    case download
    then show ?thesis
      using download_handle_phase [of c e "session_st s" "security_st s" Uds_send_response Uds_send_nrc req len "flash_st s" "io_st s"]
        transfer_handle_phase [of e Uds_send_response Uds_send_nrc req len "flash_st s" "io_st s"]
        exit_handle_phase [of Uds_send_response Uds_send_nrc req len "flash_st s" "io_st s"]
      by (intro simulate_download)
        (auto simp: dispatch_session dispatch_security dispatch_flash dispatch_routine valid_session_request_def)
  next
    case routine
    then show ?thesis
      using routine_handle_status [of e "session_st s" Uds_send_response Uds_send_nrc req len "routine_st s" "io_st s"]
      by (intro simulate_routine)
        (auto simp: dispatch_session dispatch_security dispatch_flash dispatch_routine valid_session_request_def)
  next
    case other
    then show ?thesis
      by (intro diagnosis_of_eqI) (auto simp: dispatch_session dispatch_security dispatch_flash dispatch_routine)
  qed
qed

lemma background_simulated:
  assumes "background e s t" "s3_ok s" "lockout_ok s" "routine_inv (routine_st s) (wq s) (tr s)"
  shows "diagnosis_step m (diagnosis_of s) (diagnosis_of t)"
  using assms(1)
proof cases
  case s3
  then have "dg_session (diagnosis_of s) \<noteq> UDS_SESSION_DEFAULT"
    using assms(2) by (auto simp: s3_ok_def timer_running_def diagnosis_of_def)
  moreover have "diagnosis_of t = (diagnosis_of s)
      \<lparr>dg_session := UDS_SESSION_DEFAULT, dg_lock := closed_lock (dg_lock (diagnosis_of s))\<rparr>"
    using s3 calculation by (intro simulate_session) (simp_all add: diagnosis_of_def)
  ultimately show ?thesis by (simp add: diagnosis_step.session_timeout)
next
  case lockout
  then have "dg_lock (diagnosis_of s) = UDS_SEC_BRUTE_FORCE_LOCKOUT"
    using assms(3) by (auto simp: lockout_ok_def timer_running_def diagnosis_of_def split: if_splits)
  moreover have "diagnosis_of t = (diagnosis_of s)\<lparr>dg_lock := UDS_SEC_LOCKED, dg_attempts := 0\<rparr>"
    using lockout by (simp add: diagnosis_of_def)
  ultimately show ?thesis by (simp add: diagnosis_step.lockout_ends)
next
  case (routine_end ret info)
  then have "erase_routine_status (routine_st s) = ROUTINE_RUNNING"
    using assms(4) by (simp add: routine_inv_def job_held_def)
  then show ?thesis using routine_end by (intro simulate_routine) simp_all
qed (simp_all add: diagnosis_of_eqI)

lemma step_simulated:
  assumes "reachable c e s" "kconfig_ok c" "counter_ok c (security_st (booted c e))" "uds_step c e s t"
  shows "diagnosis_step (CONFIG_UDS_SEC_MAX_FAILED_ATTEMPTS c) (diagnosis_of s) (diagnosis_of t)"
  using assms(4)
proof cases
  case (poll buf l)
  then show ?thesis by (simp add: diagnosis_of_eqI)
next
  case (request buf len l)
  have "counter_ok c (security_st s)" using reachable_sec_inv [OF assms(1-3)] by (simp add: sec_inv_def)
  then have "diagnosis_step (CONFIG_UDS_SEC_MAX_FAILED_ATTEMPTS c)
      (diagnosis_of (accepted c (link_addressing l) (polled l buf s)))
      (diagnosis_of (uds_dispatch c e buf len (link_addressing l) (accepted c (link_addressing l) (polled l buf s))))"
    using assms(2) by (intro dispatch_simulated) simp_all
  moreover have "diagnosis_of (accepted c (link_addressing l) (polled l buf s)) = diagnosis_of s"
    by (simp add: diagnosis_of_def)
  ultimately show ?thesis using request by (simp add: received_eq diagnosis_of_eqI)
next
  case periodic
  then show ?thesis by (simp add: diagnosis_of_eqI)
next
  case background
  then show ?thesis
    using reachable_s3 [OF assms(1,2)] reachable_lockout [OF assms(1,2)] reachable_routine [OF assms(1,2)]
    by (rule background_simulated)
qed

lemma boot_simulated:
  assumes "fst (uds_init c e (system_0 c)) = 0"
  shows "diagnosis_start (diagnosis_of (booted c e))"
  using security_init_timer [of "security_state_0 c" c e "io_boot c"] booted_sel [OF assms]
  by (simp add: diagnosis_start_def diagnosis_of_def session_state_0_def security_state_0_def flash_state_0_def routine_state_0_def)

end
