(* ===== verification/Spec2Isabelle.thy ===== *)
theory Spec2Isabelle
  imports Uds_Scenarios Uds_Diagnosis
begin

text \<open>
  zephyr-uds: a UDS (ISO 14229) diagnostic server for the Zephyr RTOS.

  The program. A receive thread (\<open>src/uds_server.c\<close>, \<open>uds_rx_thread\<close>) polls two ISO-TP links, a physical and a
  functional one, and hands every message to \<open>uds_process_request\<close>, which refreshes the session timer and calls the
  service of the first byte: session control, reading identifiers, events and TesterPresent stand in the switch itself,
  every other service in a file of its own under \<open>src/\<close>. A service answers through the callbacks
  \<open>uds_send_response\<close> and \<open>uds_send_nrc\<close>, builds long answers in the one shared transmit buffer, and asks the application
  through the hooks of \<open>include/zephyr/canbus/uds_app_interface.h\<close>. Routines and clearing trouble codes run as work items
  of the system work queue while a timer keeps the tester waiting with ResponsePending; five timers call back into the
  services; a thread of its own broadcasts the periodic identifiers.

  The model. Each file of C is one theory, its static variables one record, each of its functions one definition of the
  same name on that record and on the record \<open>io\<close> (trace, addressing mode, transmit buffer, fault flag).

    \<^item> \<open>Uds_Prelude\<close>: integers at their width, big-endian arithmetic, byte arrays with a checked block write.
    \<^item> \<open>Uds_Types\<close>: \<open>uds_types.h\<close> and \<open>Kconfig.uds\<close>. \<open>Uds_Env\<close>: the hooks and the Zephyr calls, as the parameter \<open>env\<close>;
      the events of the trace, and what the trace says of timers and work items. \<open>Uds_Weak_Defaults\<close>:
      \<open>uds_weak_defaults.c\<close>.
    \<^item> \<open>Uds_Transport\<close>: the sending side of \<open>uds_server.c\<close>. \<open>Uds_Service\<close>: the locales \<open>service\<close> (a handler only
      extends the trace, sends at most one answer of its service, calls only its own hooks and reads only the received bytes)
      and \<open>gated_service\<close> (unless its guard holds it changes nothing and calls no hook); every handler interprets one of
      them in its own theory, so that the dispatcher is proved once from their laws.
    \<^item> \<open>Uds_Security\<close>, \<open>Uds_Session\<close>, \<open>Uds_Reset\<close>, \<open>Uds_Routine\<close>, \<open>Uds_Clear_Dtc\<close>, \<open>Uds_Read_Dtc\<close>, \<open>Uds_Write_Did\<close>,
      \<open>Uds_Iocontrol\<close>, \<open>Uds_Flash_Pipeline\<close>, \<open>Uds_Dynamic_Did\<close>, \<open>Uds_Periodic\<close>, \<open>Uds_Data_Storage\<close>: the files of the same names.
    \<^item> \<open>Uds_Server\<close>: the dispatcher, the receive thread's round, \<open>uds_init\<close>, and the state of the whole module.
      \<open>Uds_Answers\<close>: which requests are answered at once.
    \<^item> \<open>Uds_System\<close>: the threads, the work queue and the timers as the step relation \<open>uds_step\<close>, and the states
      \<open>reachable\<close> from a successful initialisation.
    \<^item> \<open>Uds_Invariants\<close> (buffer lengths, timers), \<open>Uds_Access\<close> (who may do what, and what NVS remembers),
      \<open>Uds_Background\<close> (jobs of the work queue, reboots), \<open>Uds_Diagnosis\<close> (an abstract machine the module refines), \<open>Uds_Download\<close> (blocks of a download), \<open>Uds_Timing\<close> (durations), \<open>Uds_Memory\<close> (accesses inside arrays): the invariants of
      reachable states, each by rule induction over the steps from the services' contracts.
    \<^item> \<open>Uds_Preemption\<close>: both threads once more, as programs of single statements (\<open>request_prog\<close>, \<open>bind_prog\<close>,
      \<open>round_prog\<close>), proved equal to the handlers when they run alone, and the relation \<open>preempted\<close>, which runs timers, work queue and
      the other thread between any two of them. \<open>Uds_Rely\<close>: proof outlines of such programs under interference (the
      locales \<open>interference\<close>, \<open>two_threads\<close> and \<open>outlined_module\<close>). \<open>Uds_Interleaving\<close>: the outlines of the two threads for
      access, timers and links. \<open>Uds_Interleaved_Jobs\<close>: their outlines for the jobs of the work queue. \<open>Uds_Fairness\<close>: endless
      interleavings, and progress of the jobs by a rank when the work queue is not starved.
    \<^item> \<open>Uds_Scenarios\<close>: concrete runs for the witnesses.

  The outside. Calls of Zephyr and of the application are no code of this repository: they are recorded in the trace, and
  where the code uses a result it is a function of the trace so far, so one \<open>env\<close> may answer every call of a run
  differently and nothing is assumed of it unless a theorem says so. The hypotheses that theorems do state are documented
  behaviour: \<open>hooks_bounded\<close> (a hook writes no more than the room it is given), \<open>storage_usable\<close> and \<open>backed\<close>
  (NVS mounts, and a read returns what was written last), \<open>counter_ok\<close> of the booted state (NVS yields an attempt counter
  below the maximum, or the lockout flag; \<open>booted_store\<close> derives it from \<open>backed\<close> and what earlier lives wrote), \<open>pending_exact\<close> (\<open>k_work_is_pending\<close> is true while an item is
  busy), \<open>fair_to_queue\<close> (the work queue takes a step sooner or later while it has an item or a handler; \<open>fair_runs_exist\<close>
  gives such a run from every state where both threads wait), and that \<open>isotp_recv\<close> returns no more than the room it is given. The scheduler is free: any handler, callback,
  thread round or section of a work handler may be next, when its timer is armed or its work item is the oldest of the queue.

  What is shown. Access: an unlocked module has seen a key accepted for the seed it sent last, wrong keys are bounded, and
  protected hooks are called only while authenticated (\<open>unlocked_has_proved_key\<close>, \<open>protected_hooks_guarded\<close>,
  \<open>weak_build_stays_locked\<close>); wherever the threads are interrupted, they are called only after an accepted key, and
  rejected keys stay bounded (\<open>interleaved_access\<close>); a restart forgets neither attempts nor lockout
  (\<open>restart_keeps_attempts\<close>), every lockout and every job can end (\<open>background_settles\<close>), and security access refines a small abstract lock
  (\<open>security_refines_spec\<close>). With session, download and routine that lock becomes a machine of ten moves, which the whole
  module refines step by step (\<open>module_refines_diagnosis\<close>). Answers: at most one frame per request, of its service, read from the received bytes only
  (\<open>one_answer_per_request\<close>, \<open>request_reads_only_received\<close>), exactly one on the physical link but for four kinds of request
  (\<open>physical_request_answered\<close>), with the effects of each service on every branch. Background:
  each accepted job has exactly one result, ResponsePending only in between (\<open>routine_jobs\<close>, \<open>clear_jobs\<close>); on every interleaving too no job is lost or doubled
  (\<open>interleaved_jobs\<close>), on every fair one each is answered (\<open>accepted_jobs_answered\<close>), and the timers fit the state whenever the receive thread is back in its loop (\<open>interleaved_timers_armed\<close>). Threads: nothing is asked of a link that is not bound
  (\<open>links_bound_first\<close>), and the periodic thread may run inside a request that changes its list (\<open>interleaved_round_safe\<close>). Data: a download stores exactly its image, block behind block on every run, trouble codes, dynamic identifiers, periodic lists
  and the vehicle number are exact. Memory: no access outside an array under stated bounds, and the bounds are needed
  (\<open>read_dtc_overflows\<close>, \<open>dynamic_did_reads_outside\<close>, \<open>long_seed_reads_outside\<close>). Defects found are stated as theorems too
  (\<open>transfer_survives_session_end\<close>, \<open>guards_can_go_stale\<close>, \<open>reset_mode_race\<close>, the refused branch of \<open>download_decodes\<close>).

  Bounds and loops. Every loop of the code is bounded by a list or a count and is a structural recursion, so there is no fuel;
  the two endless thread loops are one definition per round, iterated by the step relation. The periodic thread reads its count before every turn;
  \<open>loop_prog\<close> has the turns 0 to 255, which are enough because the count is a byte. Bytes and addresses are machine
  words; lengths and indices, which C keeps in \<open>size_t\<close>, are natural numbers bounded by the receive buffer.
  An access outside an array sets the flag \<open>mem_fault\<close>, which is never cleared: what the model computes afterwards claims nothing.

  Atomicity. In \<open>uds_step\<close> a step is a whole request, a whole round of the periodic thread, a timer callback or a section of a work
  handler; those are cut where the application's hook runs, where the thread sleeps and where it transmits the result
  (\<open>Wq_sent\<close>): a new start may be accepted, and its item submitted, while the handler of the last one has not returned. The thread of
  the work queue gives up the processor nowhere else, as it is cooperative unless configured otherwise. The invariants of reachable states are about
  these steps. In \<open>preempted\<close> each thread is cut into its statements, and every run of the first kind is one of the second
  (\<open>whole_requests_are_interleavings\<close>). Whatever the receive thread shares with a timer, the work queue or the periodic
  thread is read or written in an action of its own: session and security, routines, clearing, resets and the list of periodic
  identifiers. A service that only reads the session and the security status reads them one after the other and then is
  one action, like the services that share nothing. Timer callbacks and the sections of work handlers stay whole. Priorities are not used: every interleaving is
  allowed, also those the scheduler excludes. \<open>sys_reboot\<close> is recorded and does not end a run.

  Not modelled: log output, the contents of the ISO-TP, CAN and NVS drivers, the preemption of a timer callback or inside a section of a work handler, real time (a timer may expire whenever it is armed), a NULL request pointer (the receive thread never passes one), and
  loss of power between two NVS writes. \<open>uds_read_dtc_init\<close> only logs. \<open>CONFIG_UDS_SEC_SECRET_MASK\<close> and the hook
  \<open>uds_app_calculate_key\<close> are there, but no code uses them.
\<close>





text \<open>
  C4: a restart on the same NVS forgets neither the failed attempts nor a lockout, whose timer is armed again, over any
  number of lives.
\<close>

theorem restart_keeps_attempts:
  assumes "kconfig_ok c" "reachable c e s" "storage_usable e" "backed e old" "stored_ok c old"
    and "fst (uds_init c e' (system_0 c)) = 0" "storage_usable e'" "backed e' (tr s @ old)"
  shows "security_status (security_st (booted c e')) =
      (if security_status (security_st s) = UDS_SEC_BRUTE_FORCE_LOCKOUT
       then UDS_SEC_BRUTE_FORCE_LOCKOUT else UDS_SEC_LOCKED) \<and>
    failed_attempts_counter (security_st (booted c e')) = failed_attempts_counter (security_st s) \<and>
    timer_running Lockout_timer (tr (booted c e')) =
      (security_status (security_st s) = UDS_SEC_BRUTE_FORCE_LOCKOUT) \<and>
    stored_ok c (tr s @ old)"
  using booted_restores [OF assms(6-8) reachable_store [OF assms(2,1,3,4,5)] reachable_counter [OF assms(2,1,3,4,5)] assms(1)]
    reachable_store [OF assms(2,1,3,4,5)] reachable_counter [OF assms(2,1,3,4,5)]
    reachable_lockout [OF reachable.boot [OF assms(6)] assms(1)]
  by (auto simp: sec_view_def stored_ok_def lockout_ok_def timer_running_def
      intro: word_unat_eq_iff [THEN iffD2] split: if_splits)

theorem restart_keeps_attempts_witness:
  "security_status (security_st (booted kconfig_default (backed_env (run_hooks 1) (tr run_locked_out))))
   = UDS_SEC_BRUTE_FORCE_LOCKOUT"
proof -
  have b: "fst (uds_init kconfig_default (backed_env (run_hooks 1) (tr run_locked_out)) (system_0 kconfig_default)) = 0"
    by (simp add: init_ok_iff backed_env_def)
  show ?thesis
    using restart_keeps_attempts [OF kconfig_default_ok run_locked_out(1) run_env_sel(5,6) stored_ok_empty [OF kconfig_default_ok] b]
      run_locked_out(2) by simp
qed



text \<open>
  C6: the running module refines an abstract machine of ten moves on session, lock, attempt counter, download and routine: it
  boots into a start of the machine, and each of its steps is one of the moves or changes none of the five.
\<close>

theorem module_refines_diagnosis:
  assumes "reachable c e s" "kconfig_ok c" "counter_ok c (security_st (booted c e))"
  defines "m \<equiv> CONFIG_UDS_SEC_MAX_FAILED_ATTEMPTS c"
  shows "diagnosis_start (diagnosis_of (booted c e)) \<and>
    (diagnosis_step m)\<^sup>*\<^sup>* (diagnosis_of (booted c e)) (diagnosis_of s) \<and>
    (\<forall>t. uds_step c e s t \<longrightarrow> diagnosis_step m (diagnosis_of s) (diagnosis_of t))"
  using assms(1)
proof (induction rule: reachable.induct)
  case boot
  then show ?case using boot_simulated step_simulated [OF reachable.boot assms(2,3)] by (simp add: m_def)
next
  case (step s t)
  have "reachable c e t" by (rule reachable.step [OF step(1,2)])
  then show ?case
    using step step_simulated [OF _ assms(2,3)] by (auto simp: m_def intro: rtranclp.rtrancl_into_rtrancl)
qed

theorem module_refines_diagnosis_witness:
  "(diagnosis_step 3)\<^sup>*\<^sup>* (diagnosis_of (run_start 1)) (diagnosis_of run_locked_out)"
  using module_refines_diagnosis [OF run_locked_out(1) kconfig_default_ok run_booted_view(2)] by (simp add: kconfig_default_def)







text \<open>
  C24: in a build that overrides no application hook, security is never unlocked and no protected hook is ever
  called.
\<close>

theorem weak_build_stays_locked:
  assumes "reachable c e s" "kconfig_ok c" "app e = weak_hooks"
    and "counter_ok c (security_st (booted c e))"
  shows "security_status (security_st s) \<noteq> UDS_SEC_UNLOCKED \<and>
    (\<forall>ev \<in> set (tr s). case ev of App_write_did _ _ \<Rightarrow> False | App_io_control _ _ _ \<Rightarrow> False
       | App_flash_erase_target _ _ \<Rightarrow> False | App_flash_write_block _ _ \<Rightarrow> False | _ \<Rightarrow> True)"
proof -
  have a: "\<not> authenticated e evs" for evs
  proof (induction evs)
    case (Cons ev evs) then show ?case by (cases ev) (simp_all add: assms(3) weak_hooks_def weak_defs)
  qed simp
  have f: "\<not> erase_accepted e evs" for evs
  proof (induction evs)
    case (Cons ev evs) then show ?case by (cases ev) (simp_all add: assms(3) weak_hooks_def weak_defs)
  qed simp
  have "guarded e evs \<Longrightarrow> \<forall>ev \<in> set evs. case ev of App_write_did _ _ \<Rightarrow> False | App_io_control _ _ _ \<Rightarrow> False
       | App_flash_erase_target _ _ \<Rightarrow> False | App_flash_write_block _ _ \<Rightarrow> False | _ \<Rightarrow> True" for evs
  proof (induction evs)
    case (Cons ev evs) then show ?case by (cases ev) (simp_all add: a f)
  qed simp
  then show ?thesis
    using reachable_guarded [OF assms(1,2,4)] reachable_sec_inv [OF assms(1,2,4)] a
    by (auto simp: guard_inv_def sec_inv_def)
qed

theorem weak_build_stays_locked_witness:
  "security_status (security_st (attempt (backed_env weak_hooks []) (booted kconfig_default (backed_env weak_hooks []))))
   \<noteq> UDS_SEC_UNLOCKED"
proof -
  have b: "fst (uds_init kconfig_default (backed_env weak_hooks []) (system_0 kconfig_default)) = 0"
    by (simp add: init_ok_iff backed_env_def)
  have "counter_ok kconfig_default (security_st (booted kconfig_default (backed_env weak_hooks [])))"
    using booted_store [OF b, of "[]"] stored_ok_empty [of kconfig_default] by simp
  then show ?thesis
    using weak_build_stays_locked [OF reachable_attempt [OF reachable.boot [OF b]] kconfig_default_ok]
    by (simp add: backed_env_def)
qed

text \<open>
  C31: a valid session request switches the session, locks security unless a lockout is under way, keeps the attempt
  counter, arms the session timer exactly for a session other than the default one and is answered; any other is
  refused and changes neither component.
\<close>

theorem session_control:
  assumes "t = uds_process_request c e req len a s" "2 \<le> len" "req ! 0 = 0x10"
    "2 \<le> length (uds_tx_buf (io_st s))"
  shows "if req ! 1 = 1 \<or> req ! 1 = 2 \<or> req ! 1 = 3
    then current_session (session_st t) = uds_session_type_of (req ! 1) \<and>
      security_status (security_st t) = (if security_status (security_st s) = UDS_SEC_BRUTE_FORCE_LOCKOUT
         then UDS_SEC_BRUTE_FORCE_LOCKOUT else UDS_SEC_LOCKED) \<and>
      failed_attempts_counter (security_st t) = failed_attempts_counter (security_st s) \<and>
      timer_running S3_timer (trace (io_st t)) = (req ! 1 \<noteq> 1) \<and>
      frames (trace (io_st t)) = [0x50, req ! 1] # frames (trace (io_st s))
    else session_st t = session_st s \<and> security_st t = security_st s \<and>
      frames (trace (io_st t)) = (if a = UDS_ADDR_FUNCTIONAL then [] else [[0x7F, 0x10, 0x12]]) @ frames (trace (io_st s))"
proof -
  have t: "t = uds_dispatch c e req len a (accepted c a s)"
    using assms(2,4) by (simp add: process_request_eq assms(1))
  have ses: "session_st t = (if valid_session_request req len
      then (session_st s)\<lparr>current_session := uds_session_type_of (req ! 1)\<rparr> else session_st s)"
    "security_st t = (if valid_session_request req len then uds_security_reset_lock (security_st s) else security_st s)"
    using assms(3) by (simp_all add: t dispatch_session dispatch_security)
  have tr: "trace (io_st t) = trace (io_st (uds_session_case c req len (accepted c a s)))"
    using assms(3) by (simp add: t dispatch_0x10)
  have b: "\<not> len < 2" using assms(2) by simp
  show ?thesis
    using assms(2,3)
    by (simp add: ses tr session_case_trace timer_running_def timer_mode_s3_event valid_session_request_def b
        take_head(1) [OF assms(4)] uds_session_type_of_def uds_security_reset_lock_def, simp add: s3_event_def)
qed

theorem session_control_witness:
  "current_session (session_st (uds_process_request kconfig_default (quiet_env weak_hooks) [0x10, 3] 2 UDS_ADDR_PHYSICAL
     (uds_state_0 kconfig_default))) = UDS_SESSION_EXTENDED"
  using session_control [OF refl, of 2 "[0x10, 3]" "uds_state_0 kconfig_default" kconfig_default "quiet_env weak_hooks" UDS_ADDR_PHYSICAL]
  by (simp add: uds_state_0_def io_0_def uds_session_type_of_def, simp add: kconfig_default_def)

text \<open>
  C16: on every run each block the application is handed lies directly behind the bytes it has taken since it last accepted an
  erase, counted from the address of the latest download request.
\<close>

theorem download_blocks_contiguous:
  assumes "reachable c e s" "kconfig_ok c" "tr s = post @ App_flash_write_block off d # pre"
  shows "off = download_base pre + download_count e pre"
proof -
  have "contiguous e (post @ App_flash_write_block off d # pre)"
    using reachable_download [OF assms(1,2)] assms(3) by (simp add: download_inv_def)
  then show ?thesis by (rule contiguous_append)
qed

theorem download_blocks_contiguous_witness:
  "\<exists>pre. App_flash_write_block 0x10 [0xAA] \<in> set (tr run_block) \<and> 0x10 = download_base pre + download_count (run_env 0) pre"
proof -
  obtain post pre where t: "tr run_block = post @ App_flash_write_block 0x10 [0xAA] # pre" using run_block(2) by blast
  then show ?thesis
    using download_blocks_contiguous [OF run_block(1) kconfig_default_ok t] by auto
qed

text \<open>
  C22: on every run each timer is started with the duration and the period the configuration and the service give it.
\<close>

theorem timers_as_configured:
  assumes "reachable c e s" "kconfig_ok c" "K_timer_start t d p \<in> set (tr s)"
  shows "(d, p) = (case t of S3_timer \<Rightarrow> (CONFIG_UDS_S3_TIMEOUT_MS c, 0)
    | Lockout_timer \<Rightarrow> (CONFIG_UDS_SEC_LOCKOUT_TIME_MS c, 0) | Reset_timer \<Rightarrow> (50, 0)
    | Routine_nrc78_timer \<Rightarrow> (0, 20) | Clear_nrc78_timer \<Rightarrow> (20, 0))"
proof -
  have "as_configured c (K_timer_start t d p)"
    using reachable_times [OF assms(1,2)] assms(3) unfolding timers_configured_def by blast
  then show ?thesis by (cases t) simp_all
qed

theorem timers_as_configured_witness:
  "\<exists>d p. K_timer_start S3_timer d p \<in> set (tr run_extended) \<and> (d, p) = (5000, 0)"
proof -
  obtain d p where s: "K_timer_start S3_timer d p \<in> set (tr run_extended)" using run_extended(3) by blast
  then show ?thesis
    using timers_as_configured [OF run_extended(1) kconfig_default_ok s] by (auto simp: kconfig_default_def)
qed

text \<open>
  C17: both threads are free to run without a break, and then do exactly what the one step of a request or of a round
  does: every run of whole requests and rounds is a run of the threads.
\<close>

theorem whole_requests_are_interleavings:
  assumes "reachable c e s" "kconfig_ok c" "(uds_step c e)\<^sup>*\<^sup>* s t"
  shows "(preempted c e)\<^sup>*\<^sup>* (s, Poll, Poll) (t, Poll, Poll)"
  using assms(3)
proof (induction rule: rtranclp_induct)
  case (step t u)
  have "periodic_inv (periodic_st t)" by (rule reachable_tx_buf(3) [OF reachable_run [OF assms(1) step(1)] assms(2)])
  with step show ?case using step_preempted rtranclp_trans by metis
qed simp

theorem whole_requests_are_interleavings_witness:
  "\<exists>t. (preempted kconfig_default (run_env 0))\<^sup>*\<^sup>* (run_extended, Poll, Poll) (t, Poll, Poll) \<and>
     current_session (session_st t) = UDS_SESSION_DEFAULT"
proof -
  have "timer_running S3_timer (tr run_extended)"
    using reachable_s3 [OF run_extended(1) kconfig_default_ok] run_extended(2) by (simp add: s3_ok_def timer_running_def)
  then have "(uds_step kconfig_default (run_env 0))\<^sup>*\<^sup>* run_extended (s3_expiry run_extended)"
    by (intro r_into_rtranclp background_steps)
  from whole_requests_are_interleavings [OF run_extended(1) kconfig_default_ok this] show ?thesis
    by (intro exI [of _ "s3_expiry run_extended"]) simp
qed

text \<open>
  C2: on every interleaving of the statements of the two threads with the timers and the work queue, at most the
  configured number of keys is rejected between lockouts or accepted keys, a receive thread that is back in its loop with the
  maximum reached is locked out, each call that writes an identifier, drives an output or erases flash is made when the last
  key checked was accepted, and each flash write behind an accepted erase.
\<close>

theorem interleaved_access:
  assumes "threads_reach c e s p q" "kconfig_ok c" "counter_ok c (security_st (booted c e))"
  shows "failures e (tr s) \<le> CONFIG_UDS_SEC_MAX_FAILED_ATTEMPTS c \<and>
    (p = Poll \<and> failures e (tr s) = CONFIG_UDS_SEC_MAX_FAILED_ATTEMPTS c \<longrightarrow>
       security_status (security_st s) = UDS_SEC_BRUTE_FORCE_LOCKOUT) \<and>
    guarded_by (key_proved e) e (tr s)"
proof -
  have "th.first.held c e s p" using threads_held [OF assms] by (simp only: th.both_held_def)
  then show ?thesis
    using th.first.held_good [of c e s p]
    by (auto simp: th.first.held_idle seen_def rest_def counted_def good_def outlook_sel)
qed

theorem interleaved_access_witness:
  "failures (run_env 1) (tr (attempt (run_env 1) (run_bound 1))) \<le> 3"
  using interleaved_access [OF run_refused kconfig_default_ok run_booted_view(2)]
  by (simp add: kconfig_default_def)

text \<open>
  C11: whenever the receive thread is back in its loop, whatever has run in between, a session other than the default one has its
  timer armed, the lockout timer is armed exactly during a lockout, and the attempt counter has reached its maximum exactly then.
\<close>

theorem interleaved_timers_armed:
  assumes "threads_reach c e s Poll q" "kconfig_ok c" "counter_ok c (security_st (booted c e))"
  shows "(current_session (session_st s) \<noteq> UDS_SESSION_DEFAULT \<longrightarrow> timer_running S3_timer (tr s)) \<and>
    (timer_running Lockout_timer (tr s) \<longleftrightarrow> security_status (security_st s) = UDS_SEC_BRUTE_FORCE_LOCKOUT) \<and>
    counter_ok c (security_st s)"
proof -
  have "seen c e rest s" using threads_held [OF assms] by (simp only: th.both_held_def th.first.held_idle)
  then show ?thesis
    by (auto simp: seen_def rest_def counted_def clocked_def outlook_sel timer_running_def counter_ok_def)
qed

theorem interleaved_timers_armed_witness:
  "timer_running S3_timer (tr (tell (run_env 0) [0x10, 3] (run_bound 0)))"
  using interleaved_timers_armed [OF run_changed(1) kconfig_default_ok run_booted_view(2)] run_changed(2) by simp





text \<open>
  C20: on every run each array has its declared length, the indices into them stay inside, and the callbacks the
  periodic thread and a submitted job are going to call have been stored.
\<close>

theorem module_well_typed:
  assumes "reachable c e s" "kconfig_ok c"
  shows "well_typed c s"
  by (rule reachable_well_typed [OF assms])

theorem module_well_typed_witness: "stored_routine_send_cb (routine_st run_routine) \<noteq> None"
proof -
  have "work_busy Routine_work (tr run_routine)"
    using reachable_routine [OF run_routine(1) kconfig_default_ok] run_routine(2)
    by (intro awaited_busy [OF run_routine(1) kconfig_default_ok]) (simp_all add: routine_inv_def)
  with module_well_typed [OF run_routine(1) kconfig_default_ok] show ?thesis by (simp add: well_typed_def)
qed

text \<open>
  C35: the checks of a write request do not cover its hook: if the session timer expires between the two, the application is
  asked to write although the session has ended and security is locked. The request has just restarted the timer,
  so the thread must be held up for the whole timeout.
\<close>

theorem guards_can_go_stale:
  assumes "current_session (session_st s) = UDS_SESSION_EXTENDED" "security_status (security_st s) = UDS_SEC_UNLOCKED"
    and "req ! 0 = 0x2E" "3 \<le> len"
  shows "\<exists>t post pre. (preempted c e)\<^sup>*\<^sup>* (s, request_prog c e req len a, q) (t, Poll, q) \<and>
    current_session (session_st t) = UDS_SESSION_DEFAULT \<and> security_status (security_st t) = UDS_SEC_LOCKED \<and>
    tr t = post @ App_write_did (be16 (req ! 1) (req ! 2)) (take (len - 3) (drop 3 req)) # K_timer_expired S3_timer # pre"
proof -
  define f :: "session_state \<Rightarrow> security_state \<Rightarrow> system \<Rightarrow> system" where
    "f ses ss = on_io (uds_write_did_handle e ses ss Uds_send_response Uds_send_nrc req len)" for ses ss
  define s1 where "s1 = on_io (\<lambda>i. i\<lparr>current_msg_addressing := a\<rparr>) s"
  define s2 where "s2 = on_io (emit (s3_event c (session_st s))) s1"
  define r where "r = act (f (session_st s2) (security_st s2)) Poll"
  have "preempted c e (s, request_prog c e req len a, q) (s1, refresh_prog c (guard_prog f), q)"
    using preempted_act [of c e s] assms(3,4) by (simp add: request_prog_def s1_def service_prog_def f_def [abs_def])
  moreover have "preempted c e (s1, refresh_prog c (guard_prog f), q)
      (s1, act (on_io (emit (s3_event c (session_st s)))) (guard_prog f), q)"
    using preempted_refresh [of c e s1 c] by (simp add: s1_def)
  moreover have "preempted c e (s1, act (on_io (emit (s3_event c (session_st s)))) (guard_prog f), q) (s2, guard_prog f, q)"
    unfolding s2_def by (rule preempted_act)
  moreover have "(preempted c e)\<^sup>*\<^sup>* (s2, guard_prog f, q) (s2, r, q)"
    using preempted_guard [of c e s2 f] by (simp add: r_def)
  moreover have "preempted c e (s2, r, q) (s3_expiry s2, r, q)"
    by (intro preempted.other background.s3) (simp add: s2_def assms(1) s3_event_def timer_running_def)
  moreover have "preempted c e (s3_expiry s2, r, q) (f (session_st s2) (security_st s2) (s3_expiry s2), Poll, q)"
    unfolding r_def by (rule preempted_act)
  ultimately have "(preempted c e)\<^sup>*\<^sup>* (s, request_prog c e req len a, q) (f (session_st s2) (security_st s2) (s3_expiry s2), Poll, q)"
    by (meson converse_rtranclp_into_rtranclp rtranclp.rtrancl_into_rtrancl)
  moreover obtain post where "tr (f (session_st s2) (security_st s2) (s3_expiry s2)) =
      post @ App_write_did (be16 (req ! 1) (req ! 2)) (take (len - 3) (drop 3 req)) # K_timer_expired S3_timer # tr s2"
    using write_did_calls [OF assms(3,4), of "session_st s2" "security_st s2" e Uds_send_response Uds_send_nrc "io_st (s3_expiry s2)"]
      assms(1,2) by (auto simp: f_def s2_def s1_def s3_event_def)
  moreover have "current_session (session_st (f (session_st s2) (security_st s2) (s3_expiry s2))) = UDS_SESSION_DEFAULT"
    "security_status (security_st (f (session_st s2) (security_st s2) (s3_expiry s2))) = UDS_SEC_LOCKED"
    using assms(1,2) by (simp_all add: f_def s2_def s1_def s3_event_def uds_security_reset_lock_def)
  ultimately show ?thesis by blast
qed

theorem guards_can_go_stale_witness:
  "\<exists>t post pre. (preempted kconfig_default (run_env 0))\<^sup>*\<^sup>*
      (attempt (run_env 0) run_extended, request_prog kconfig_default (run_env 0) [0x2E, 0xF1, 0x90, 1] 4 UDS_ADDR_PHYSICAL, Poll) (t, Poll, Poll) \<and>
    current_session (session_st t) = UDS_SESSION_DEFAULT \<and> security_status (security_st t) = UDS_SEC_LOCKED \<and>
    tr t = post @ App_write_did (be16 0xF1 0x90) [1] # K_timer_expired S3_timer # pre"
proof -
  have "security_status (security_st (attempt (run_env 0) run_extended)) = UDS_SEC_UNLOCKED"
    using attempt_view [OF run_extended_view, of 0] by (simp add: sec_view_def)
  then show ?thesis
    using guards_can_go_stale [of "attempt (run_env 0) run_extended" "[0x2E, 0xF1, 0x90, 1]" 4 kconfig_default
        "run_env 0" UDS_ADDR_PHYSICAL Poll] run_extended(2) attempt_session [of "run_env 0" run_extended]
    by simp
qed

text \<open>
  C12: on every interleaving each accepted start of a routine and each accepted clear request has exactly one result, none comes
  without one, also where a request arrives while the work queue still transmits the last result, and ResponsePending is sent only between the start of the timer and the result. Whenever the receive thread is
  back in its loop, the timers and the status say exactly what is going on.
\<close>

theorem interleaved_jobs:
  assumes "threads_reach c e s p q" "kconfig_ok c" "pending_exact e"
  shows "submits w (tr s) = finals w (tr s) + (if awaited w (tr s) then 1 else 0) \<and> pending_in_time w (tr s) \<and>
    (p = Poll \<longrightarrow>
      (erase_routine_status (routine_st s) = ROUTINE_RUNNING \<longleftrightarrow> awaited Routine_work (tr s)) \<and>
      (timer_running Routine_nrc78_timer (tr s) \<longleftrightarrow> awaited Routine_work (tr s)) \<and>
      (timer_running Clear_nrc78_timer (tr s) \<longleftrightarrow> awaited Clear_dtc_work (tr s) \<and> \<not> worker_done (clear_st s)))"
proof -
  have held: "jobs.first.held c e s p" using jobs_held [OF assms] by (simp only: jobs.both_held_def)
  have "job_ok w (tr s)" using jobs.first.held_good [OF held] by (simp add: jobs_good_def job_good_def)
  moreover have "p = Poll \<Longrightarrow> routine_rest s \<and> clear_rest s"
    using held by (simp add: jobs.first.held_idle jobs_at_def)
  ultimately show ?thesis
    by (auto simp: job_ok_def timer_running_def routine_rest_def routine_place_def routine_busy_def
        clear_rest_def clear_place_def clear_busy_def)
qed

theorem interleaved_jobs_witness:
  "submits Routine_work (tr run_started) = finals Routine_work (tr run_started) + 1"
  using interleaved_jobs [OF run_started(1) kconfig_default_ok run_env_sel(7), of Routine_work] run_started(2) by simp

text \<open>
  C13: on every endless interleaving that does not starve the work queue, a routine or a clear request that was accepted is
  answered: some later step sends its result and ends the wait, whatever is requested, sampled or expires meanwhile.
\<close>

theorem accepted_jobs_answered:
  assumes "interleaving c e r" "fair_to_queue e r" "kconfig_ok c" "pending_exact e"
    and "awaited w (tr (fst (r n)))"
  shows "\<exists>m\<ge>n. \<exists>f. final_frame w f \<and> frames (tr (fst (r (Suc m)))) = f # frames (tr (fst (r m))) \<and>
    \<not> awaited w (tr (fst (r (Suc m))))"
  using due_is_answered [OF assms(1-4) awaited_due [OF assms(1,3-5)]] by (auto simp: result_sent_def)

theorem accepted_jobs_answered_witness:
  "\<exists>m. \<not> awaited Routine_work (tr ((run_on (run_env 0) ^^ Suc m) run_started))"
proof -
  define r where "r = (\<lambda>n. ((run_on (run_env 0) ^^ n) run_started, Poll :: system prog, Poll :: system prog))"
  have "interleaving kconfig_default (run_env 0) r" "fair_to_queue (run_env 0) r"
    using fair_runs_exist [OF run_started(1)] by (simp_all add: r_def)
  moreover have "awaited Routine_work (tr (fst (r 0)))"
    using running_awaited [OF run_started(1) kconfig_default_ok run_env_sel(7) run_started(2)] by (simp add: r_def)
  ultimately obtain m where "\<not> awaited Routine_work (tr (fst (r (Suc m))))"
    using accepted_jobs_answered [of kconfig_default "run_env 0" r Routine_work 0] kconfig_default_ok run_env_sel(7) by blast
  then show ?thesis by (auto simp: r_def)
qed

text \<open>
  C36: a reboot may be of a mode the tester was not told: a second reset request that is not answered yet has already
  replaced the mode of the first, whose timer is running.
\<close>

theorem reset_mode_race:
  assumes "timer_running Reset_timer (tr s)" "last_reset (tr s) = Some 0x01"
    and "req ! 0 = 0x11" "req ! 1 = 0x03" "2 \<le> len"
  shows "\<exists>t p pre. (preempted c e)\<^sup>*\<^sup>* (s, request_prog c e req len a, q) (t, p, q) \<and>
    tr t = Sys_reboot SYS_REBOOT_WARM # pre \<and> last_reset pre = Some 0x01"
proof -
  define s1 where "s1 = on_io (\<lambda>i. i\<lparr>current_msg_addressing := a\<rparr>) s"
  define s2 where "s2 = on_io (emit (s3_event c (session_st s))) s1"
  define s3 where "s3 = set_reset (\<lambda>rs. rs\<lparr>chosen_reset_type := SYS_REBOOT_WARM\<rparr>) s2"
  have "preempted c e (s, request_prog c e req len a, q) (s1, refresh_prog c (reset_prog req len), q)"
    using preempted_act [of c e s] assms(3,5) by (simp add: request_prog_def s1_def service_prog_def)
  moreover have "preempted c e (s1, refresh_prog c (reset_prog req len), q)
      (s1, act (on_io (emit (s3_event c (session_st s)))) (reset_prog req len), q)"
    using preempted_refresh [of c e s1 c] by (simp add: s1_def)
  moreover have "preempted c e (s1, act (on_io (emit (s3_event c (session_st s)))) (reset_prog req len), q) (s2, reset_prog req len, q)"
    unfolding s2_def by (rule preempted_act)
  moreover obtain p where "preempted c e (s2, reset_prog req len, q) (s3, p, q)"
    using preempted_act [of c e s2] assms(3-5) by (auto simp: reset_prog_def Let_def s3_def)
  moreover have "preempted c e (s3, p, q) (reset_expiry s3, p, q)"
    using assms(1) by (intro preempted.other background.reset)
      (simp add: s3_def s2_def s1_def timer_running_def timer_mode_s3_event)
  ultimately have "(preempted c e)\<^sup>*\<^sup>* (s, request_prog c e req len a, q) (reset_expiry s3, p, q)"
    by (meson converse_rtranclp_into_rtranclp rtranclp.rtrancl_refl)
  moreover have "tr (reset_expiry s3) = Sys_reboot SYS_REBOOT_WARM # K_timer_expired Reset_timer # s3_event c (session_st s) # tr s"
    by (simp add: s3_def s2_def s1_def)
  moreover have "last_reset (K_timer_expired Reset_timer # s3_event c (session_st s) # tr s) = Some 0x01"
    using assms(2) by (simp add: s3_event_def)
  ultimately show ?thesis by blast
qed

theorem reset_mode_race_witness:
  "\<exists>t p pre. (preempted kconfig_default (run_env 0))\<^sup>*\<^sup>*
      (run_reset, request_prog kconfig_default (run_env 0) [0x11, 3] 2 UDS_ADDR_PHYSICAL, Poll) (t, p, Poll) \<and>
    tr t = Sys_reboot SYS_REBOOT_WARM # pre \<and> last_reset pre = Some 0x01"
  by (rule reset_mode_race [OF run_reset]) simp_all

text \<open>
  C40: after the session timer has ended the session, a block of a running download is still handed to the
  application: TransferData checks neither session nor security.
\<close>

theorem transfer_survives_session_end:
  assumes "streaming (flash_st s)" "3 \<le> len" "req ! 0 = 0x36" "req ! 1 = expected_block_counter (flash_st s)"
    and "t = uds_process_request c e req len UDS_ADDR_PHYSICAL (s3_expiry s)"
  shows "current_session (session_st (s3_expiry s)) = UDS_SESSION_DEFAULT \<and>
    App_flash_write_block (memory_address (flash_st s) + bytes_received (flash_st s)) (take (len - 2) (drop 2 req))
      \<in> set (trace (io_st t))"
  using assms(1-4)
  by (cases "pipeline_state (flash_st s)")
    (simp_all add: assms(5) process_request_eq uds_dispatch_def Let_def uds_handle_transfer_data_def streaming_def)

theorem transfer_survives_session_end_witness:
  "App_flash_write_block 0x100 [1] \<in> set (trace (io_st
     (uds_process_request kconfig_default (run_env 0) [0x36, 1, 1] 3 UDS_ADDR_PHYSICAL
       (s3_expiry ((system_0 kconfig_default)\<lparr>flash_st := flash_state_0\<lparr>pipeline_state := FLASH_STATE_TRANSFERRING,
          memory_address := 0x100\<rparr>\<rparr>)))))"
  using transfer_survives_session_end [of "(system_0 kconfig_default)\<lparr>flash_st := flash_state_0
      \<lparr>pipeline_state := FLASH_STATE_TRANSFERRING, memory_address := 0x100\<rparr>\<rparr>" 3 "[0x36, 1, 1]", OF _ _ _ _ refl]
  by (simp add: streaming_def flash_state_0_def)

end
